theory Spec2Isabelle
  imports Main
begin

section \<open>Reversi with the return rule: the game core\<close>

text \<open>
  The three source files share one \<open>ReversiGame\<close> core. Cells and players are the
  Python strings \<open>"."\<close>, \<open>"X"\<close> and \<open>"O"\<close>; the board is a list of eight rows of
  eight cells; coordinates are Python integers.
\<close>

type_synonym board = "string list list"
type_synonym coord = "int \<times> int"

datatype error = IndexError | KeyError | TypeError

definition BOARD_SIZE :: int where
  "BOARD_SIZE = 8"

definition opponent :: "string \<Rightarrow> string" where
  "opponent player = (if player = ''X'' then ''O'' else ''X'')"

definition inside :: "int \<Rightarrow> int \<Rightarrow> bool" where
  "inside r c = (0 \<le> r \<and> r < BOARD_SIZE \<and> 0 \<le> c \<and> c < BOARD_SIZE)"

text \<open>
  The board as the constructor builds it: eight fresh rows (no two rows are the same
  list object), so a write to one cell changes that cell only.
\<close>

definition wf_board :: "board \<Rightarrow> bool" where
  "wf_board b = (length b = 8 \<and> list_all (\<lambda>row. length row = 8) b)"

text \<open>
  \<open>board[x][y]\<close> read. Every read of the source is guarded by \<open>inside x y\<close>, so on an
  8 by 8 board the index is in range and not negative.
\<close>

definition cell :: "board \<Rightarrow> int \<Rightarrow> int \<Rightarrow> string" where
  "cell b x y = b ! nat x ! nat y"

text \<open>
  \<open>board[r][c] = v\<close> with Python's index rules: an index in \<open>[-n, 0)\<close> counts from the
  end, an index outside \<open>[-n, n)\<close> raises \<open>IndexError\<close>.
\<close>

definition py_index :: "nat \<Rightarrow> int \<Rightarrow> nat option" where
  "py_index n i =
     (if 0 \<le> i \<and> i < int n then Some (nat i)
      else if - int n \<le> i \<and> i < 0 then Some (nat (int n + i))
      else None)"

definition set_cell :: "board \<Rightarrow> int \<Rightarrow> int \<Rightarrow> string \<Rightarrow> error + board" where
  "set_cell b r c v =
     (case py_index (length b) r of
        None \<Rightarrow> Inl IndexError
      | Some i \<Rightarrow>
          (case py_index (length (b ! i)) c of
             None \<Rightarrow> Inl IndexError
           | Some j \<Rightarrow> Inr (b[i := (b ! i)[j := v]])))"

definition put :: "board \<Rightarrow> nat \<Rightarrow> nat \<Rightarrow> string \<Rightarrow> board" where
  "put b r c v = b[r := (b ! r)[c := v]]"

definition empty_board :: board where
  "empty_board = replicate 8 (replicate 8 ''.'')"

definition init_board :: "board \<Rightarrow> board" where
  "init_board b = put (put (put (put b 3 3 ''X'') 4 4 ''X'') 3 4 ''O'') 4 3 ''O''"

definition directions :: "(int \<times> int) list" where
  "directions = [(-1, 0), (1, 0), (0, -1), (0, 1), (-1, -1), (-1, 1), (1, -1), (1, 1)]"

subsection \<open>\<open>get_flips\<close>\<close>

text \<open>
  The inner \<open>while\<close> loop of \<open>get_flips\<close>, on its loop state \<open>(flips, x, y)\<close>. As a
  function of an arbitrary step \<open>(dr, dc)\<close> the loop need not end (step \<open>(0, 0)\<close> on an
  opponent cell), so not returning is the value \<open>None\<close>.
\<close>

partial_function (option) walk ::
  "board \<Rightarrow> string \<Rightarrow> int \<Rightarrow> int \<Rightarrow> coord list \<Rightarrow> int \<Rightarrow> int \<Rightarrow> (coord list \<times> int \<times> int) option"
where
  "walk b opp dr dc flips x y =
     (if inside x y \<and> cell b x y = opp
      then walk b opp dr dc (flips @ [(x, y)]) (x + dr) (y + dc)
      else Some (flips, x, y))"

text \<open>The \<open>for dr, dc in directions\<close> loop, on its accumulator \<open>flips_total\<close>.\<close>

fun flips_loop ::
  "board \<Rightarrow> string \<Rightarrow> int \<Rightarrow> int \<Rightarrow> (int \<times> int) list \<Rightarrow> coord list \<Rightarrow> coord list option"
where
  "flips_loop b player r c [] flips_total = Some flips_total"
| "flips_loop b player r c ((dr, dc) # ds) flips_total =
     (let opp = opponent player; x = r + dr; y = c + dc in
      if \<not> inside x y \<or> cell b x y \<noteq> opp
      then flips_loop b player r c ds flips_total
      else
        (case walk b opp dr dc [] x y of
           None \<Rightarrow> None
         | Some (flips, x', y') \<Rightarrow>
             if inside x' y' \<and> cell b x' y' = player \<and> flips \<noteq> []
             then flips_loop b player r c ds (flips_total @ flips)
             else flips_loop b player r c ds flips_total))"

definition get_flips :: "board \<Rightarrow> string \<Rightarrow> int \<Rightarrow> int \<Rightarrow> coord list option" where
  "get_flips b player r c = flips_loop b player r c directions []"

declare walk.simps [code]

subsection \<open>\<open>get_valid_moves\<close>, \<open>count_pieces\<close>\<close>

definition all_cells :: "coord list" where
  "all_cells = concat (map (\<lambda>r. map (\<lambda>c. (r, c)) [0..7]) [0..7])"

fun valid_scan :: "board \<Rightarrow> string \<Rightarrow> coord list \<Rightarrow> coord list \<Rightarrow> coord list option" where
  "valid_scan b player [] moves = Some moves"
| "valid_scan b player ((r, c) # rest) moves =
     (if cell b r c = ''.''
      then (case get_flips b player r c of
              None \<Rightarrow> None
            | Some flips \<Rightarrow>
                if flips \<noteq> [] then valid_scan b player rest (moves @ [(r, c)])
                else valid_scan b player rest moves)
      else valid_scan b player rest moves)"

definition get_valid_moves :: "board \<Rightarrow> string \<Rightarrow> coord list option" where
  "get_valid_moves b player = valid_scan b player all_cells []"

definition count_pieces :: "board \<Rightarrow> int \<times> int" where
  "count_pieces b =
     (sum_list (map (\<lambda>row. int (count_list row ''X'')) b),
      sum_list (map (\<lambda>row. int (count_list row ''O'')) b))"

definition game_over :: "board \<Rightarrow> bool option" where
  "game_over b =
     (let full = list_all (\<lambda>row. list_all (\<lambda>v. v \<noteq> ''.'') row) b in
      if full then Some True
      else
        (case count_pieces b of (x_cnt, o_cnt) \<Rightarrow>
           if x_cnt = 0 \<or> o_cnt = 0 then Some True
           else
             (case get_valid_moves b ''X'' of
                None \<Rightarrow> None
              | Some mx \<Rightarrow>
                  if mx = [] then
                    (case get_valid_moves b ''O'' of
                       None \<Rightarrow> None
                     | Some mo \<Rightarrow> if mo = [] then Some True else Some False)
                  else Some False)))"

subsection \<open>The game object and \<open>make_move\<close>\<close>

text \<open>
  \<open>ReversiGame\<close> of \<open>test3.py\<close> has the fields \<open>board\<close> and \<open>current_player\<close>; the one of
  \<open>test.py\<close> and \<open>test2.py\<close> has the dictionary \<open>extensions\<close> as well.
\<close>

record game_core =
  board :: board
  current_player :: string

record game = game_core +
  extensions :: "string \<rightharpoonup> int"

definition new_game :: game where
  "new_game = \<lparr>board = init_board empty_board, current_player = ''X'',
                extensions = [''X'' \<mapsto> 3, ''O'' \<mapsto> 3]\<rparr>"

definition new_game_t3 :: game_core where
  "new_game_t3 = \<lparr>board = init_board empty_board, current_player = ''X''\<rparr>"

text \<open>The loop \<open>for fx, fy in flips: self.board[fx][fy] = player\<close>.\<close>

fun apply_flips :: "board \<Rightarrow> string \<Rightarrow> coord list \<Rightarrow> error + board" where
  "apply_flips b player [] = Inr b"
| "apply_flips b player ((fx, fy) # fs) =
     (case set_cell b fx fy player of
        Inl e \<Rightarrow> Inl e
      | Inr b' \<Rightarrow> apply_flips b' player fs)"

text \<open>
  \<open>random.choice(seq)\<close> returns \<open>seq[k]\<close> for an index \<open>k\<close> below \<open>len(seq)\<close> that the
  generator draws. The draw is the parameter \<open>rnd\<close>, reduced below the length, so every
  \<open>rnd\<close> gives an outcome the source can produce and every outcome has an \<open>rnd\<close>.
\<close>

definition random_choice :: "nat \<Rightarrow> 'a list \<Rightarrow> error + 'a" where
  "random_choice rnd xs = (if xs = [] then Inl IndexError else Inr (xs ! (rnd mod length xs)))"

text \<open>
  \<open>make_move\<close> of \<open>test.py\<close> (automatic return). The result is \<open>None\<close> when the flip
  computation does not return, \<open>Inl\<close> for a raised exception, and otherwise the updated
  game with the returned pair \<open>(flips, return_pos)\<close>.
\<close>

definition make_move ::
  "'a game_core_scheme \<Rightarrow> string \<Rightarrow> int \<Rightarrow> int \<Rightarrow> nat \<Rightarrow>
   (error + 'a game_core_scheme \<times> coord list option \<times> coord option) option"
where
  "make_move g player r c rnd =
     (case get_flips (board g) player r c of
        None \<Rightarrow> None
      | Some flips \<Rightarrow>
          Some
           (if flips = [] then Inr (g, None, None)
            else
              (case set_cell (board g) r c player of
                 Inl e \<Rightarrow> Inl e
               | Inr b1 \<Rightarrow>
                   (case apply_flips b1 player flips of
                      Inl e \<Rightarrow> Inl e
                    | Inr b2 \<Rightarrow>
                        if length flips \<ge> 3 then
                          (case random_choice rnd flips of
                             Inl e \<Rightarrow> Inl e
                           | Inr (rx, ry) \<Rightarrow>
                               (case set_cell b2 rx ry (opponent player) of
                                  Inl e \<Rightarrow> Inl e
                                | Inr b3 \<Rightarrow> Inr (g\<lparr>board := b3\<rparr>, Some flips, Some (rx, ry))))
                        else Inr (g\<lparr>board := b2\<rparr>, Some flips, None)))))"

text \<open>
  \<open>make_move\<close> of \<open>test2.py\<close> and \<open>test3.py\<close>: placement and flips only. (The one of
  \<open>test2.py\<close> returns \<open>(flips, None)\<close>, the one of \<open>test3.py\<close> returns \<open>flips\<close>.)
\<close>

definition make_move_t2 ::
  "'a game_core_scheme \<Rightarrow> string \<Rightarrow> int \<Rightarrow> int \<Rightarrow>
   (error + 'a game_core_scheme \<times> coord list option) option"
where
  "make_move_t2 g player r c =
     (case get_flips (board g) player r c of
        None \<Rightarrow> None
      | Some flips \<Rightarrow>
          Some
           (if flips = [] then Inr (g, None)
            else
              (case set_cell (board g) r c player of
                 Inl e \<Rightarrow> Inl e
               | Inr b1 \<Rightarrow>
                   (case apply_flips b1 player flips of
                      Inl e \<Rightarrow> Inl e
                    | Inr b2 \<Rightarrow> Inr (g\<lparr>board := b2\<rparr>, Some flips)))))"

section \<open>The window of \<open>test.py\<close>: turns, clock and extensions\<close>

text \<open>
  \<open>ReversiGUI\<close> as a record of the fields the logic reads and writes. \<open>timer_id\<close> is
  modelled as "a \<open>root.after\<close> callback is scheduled"; \<open>timer_label\<close> is the number of
  seconds the timer label shows; \<open>log\<close> holds the lines given to \<open>log_move\<close>;
  \<open>outcome\<close> is set by \<open>finish_game\<close>; \<open>handler\<close> is the callback bound to the canvas.
  Drawing is left out.
\<close>

datatype log_entry = MoveTxt string int int "coord option" | PASS
datatype outcome = XWins | OWins | Draw
datatype handler = HandleClick | HandleReturnClick | Unbound

record gui =
  game :: game
  time_left :: int
  timer_id :: bool
  timer_label :: "int option"
  log :: "log_entry list"
  outcome :: "outcome option"
  handler :: handler

definition CELL_SIZE :: int where "CELL_SIZE = 60"

definition stop_timer :: "'a gui_scheme \<Rightarrow> 'a gui_scheme" where
  "stop_timer s = (if timer_id s then s\<lparr>timer_id := False\<rparr> else s)"

definition log_move :: "log_entry \<Rightarrow> 'a gui_scheme \<Rightarrow> 'a gui_scheme" where
  "log_move txt s = s\<lparr>log := log s @ [txt]\<rparr>"

definition finish_game :: "'a gui_scheme \<Rightarrow> 'a gui_scheme" where
  "finish_game s =
     (let s1 = stop_timer s in
      case count_pieces (board (game s1)) of (x_cnt, o_cnt) \<Rightarrow>
        (let result = (if x_cnt > o_cnt then XWins else if o_cnt > x_cnt then OWins else Draw)
         in s1\<lparr>outcome := Some result, handler := Unbound\<rparr>))"

definition set_player :: "string \<Rightarrow> 'a gui_scheme \<Rightarrow> 'a gui_scheme" where
  "set_player p s = s\<lparr>game := (game s)\<lparr>current_player := p\<rparr>\<rparr>"

function tick :: "'a gui_scheme \<Rightarrow> (error + 'a gui_scheme) option"
  and handle_timeout :: "'a gui_scheme \<Rightarrow> (error + 'a gui_scheme) option"
  and switch_player :: "'a gui_scheme \<Rightarrow> (error + 'a gui_scheme) option"
  and start_turn :: "'a gui_scheme \<Rightarrow> (error + 'a gui_scheme) option"
where
  "tick s =
     (let s1 = s\<lparr>timer_label := Some (time_left s)\<rparr> in
      if time_left s1 = 0 then handle_timeout s1
      else Some (Inr (s1\<lparr>time_left := time_left s1 - 1, timer_id := True\<rparr>)))"
| "handle_timeout s =
     (let player = current_player (game s) in
      case extensions (game s) player of
        None \<Rightarrow> Some (Inl KeyError)
      | Some n \<Rightarrow>
          if n > 0 then
            tick (s\<lparr>game := (game s)\<lparr>extensions := (extensions (game s))(player \<mapsto> n - 1)\<rparr>,
                    time_left := 60\<rparr>)
          else switch_player (log_move PASS s))"
| "switch_player s =
     (let s1 = set_player (opponent (current_player (game s))) s in
      case get_valid_moves (board (game s1)) (current_player (game s1)) of
        None \<Rightarrow> None
      | Some moves \<Rightarrow>
          if moves \<noteq> [] then start_turn s1
          else
            (let s2 = log_move PASS s1;
                 s3 = set_player (opponent (current_player (game s2))) s2 in
             case get_valid_moves (board (game s3)) (current_player (game s3)) of
               None \<Rightarrow> None
             | Some moves' \<Rightarrow>
                 if moves' = [] then Some (Inr (finish_game s3)) else start_turn s3))"
| "start_turn s = tick (s\<lparr>time_left := 60\<rparr>)"
  by pat_completeness auto
termination
  by (relation "measure (\<lambda>x. case x of
      Inl (Inl s) \<Rightarrow> if time_left s = 0 then 4 else 0
    | Inl (Inr s) \<Rightarrow> 3
    | Inr (Inl s) \<Rightarrow> 2
    | Inr (Inr s) \<Rightarrow> 1)") auto

declare tick.simps [simp del] handle_timeout.simps [simp del]
  switch_player.simps [simp del] start_turn.simps [simp del]

definition use_extension :: "'a gui_scheme \<Rightarrow> error + 'a gui_scheme" where
  "use_extension s =
     (let player = current_player (game s) in
      case extensions (game s) player of
        None \<Rightarrow> Inl KeyError
      | Some n \<Rightarrow>
          if n = 0 \<or> time_left s \<ge> 120 then Inr s
          else
            (let s1 = s\<lparr>game := (game s)\<lparr>extensions := (extensions (game s))(player \<mapsto> n - 1)\<rparr>\<rparr>;
                 s2 = s1\<lparr>time_left := time_left s1 + 60\<rparr>;
                 s3 = (if time_left s2 > 120 then s2\<lparr>time_left := 120\<rparr> else s2)
             in Inr s3))"

definition end_of_move :: "'a gui_scheme \<Rightarrow> (error + 'a gui_scheme) option" where
  "end_of_move s =
     (case game_over (board (game s)) of
        None \<Rightarrow> None
      | Some over \<Rightarrow> if over then Some (Inr (finish_game s)) else switch_player s)"

definition handle_click :: "'a gui_scheme \<Rightarrow> int \<Rightarrow> int \<Rightarrow> nat \<Rightarrow> (error + 'a gui_scheme) option" where
  "handle_click s ex ey rnd =
     (let col = ex div CELL_SIZE; row = ey div CELL_SIZE in
      if \<not> (0 \<le> row \<and> row < BOARD_SIZE \<and> 0 \<le> col \<and> col < BOARD_SIZE) then Some (Inr s)
      else
        (case get_valid_moves (board (game s)) (current_player (game s)) of
           None \<Rightarrow> None
         | Some moves \<Rightarrow>
             if (row, col) \<notin> set moves then Some (Inr s)
             else
               (let s1 = stop_timer s in
                case make_move (game s1) (current_player (game s1)) row col rnd of
                  None \<Rightarrow> None
                | Some (Inl e) \<Rightarrow> Some (Inl e)
                | Some (Inr (g, flips, return_pos)) \<Rightarrow>
                    (let s2 = s1\<lparr>game := g\<rparr>;
                         s3 = log_move (MoveTxt (current_player (game s2)) row col return_pos) s2
                     in end_of_move s3))))"

definition init_gui :: "(error + gui) option" where
  "init_gui =
     start_turn \<lparr>game = new_game, time_left = 60, timer_id = False, timer_label = None,
                 log = [], outcome = None, handler = HandleClick\<rparr>"

datatype event = Click int int nat | TimerFires | ExtensionButton

definition fire :: "'a gui_scheme \<Rightarrow> event \<Rightarrow> (error + 'a gui_scheme) option" where
  "fire s ev =
     (case ev of
        Click ex ey rnd \<Rightarrow> if handler s = HandleClick then handle_click s ex ey rnd else Some (Inr s)
      | TimerFires \<Rightarrow> if timer_id s then tick (s\<lparr>timer_id := False\<rparr>) else Some (Inr s)
      | ExtensionButton \<Rightarrow> Some (use_extension s))"

fun run_events :: "(error + 'a gui_scheme) option \<Rightarrow> event list \<Rightarrow> (error + 'a gui_scheme) option" where
  "run_events None evs = None"
| "run_events (Some (Inl e)) evs = Some (Inl e)"
| "run_events (Some (Inr s)) [] = Some (Inr s)"
| "run_events (Some (Inr s)) (ev # evs) = run_events (fire s ev) evs"

section \<open>The window of \<open>test2.py\<close>: the player chooses the returned piece\<close>

text \<open>
  \<open>test2.py\<close> has the clock, the pass handling and \<open>finish_game\<close> of \<open>test.py\<close> word for
  word, and two more fields: \<open>pending_return\<close> and \<open>return_origin\<close>.
\<close>

record gui_t2 = gui +
  pending_return :: "coord list option"
  return_origin :: "coord option"

text \<open>Python's truth value of \<open>self.pending_return\<close>: neither \<open>None\<close> nor the empty list.\<close>

definition truthy :: "'a list option \<Rightarrow> bool" where
  "truthy v = (case v of None \<Rightarrow> False | Some xs \<Rightarrow> xs \<noteq> [])"

definition handle_click_t2 ::
  "'a gui_t2_scheme \<Rightarrow> int \<Rightarrow> int \<Rightarrow> (error + 'a gui_t2_scheme) option"
where
  "handle_click_t2 s ex ey =
     (if truthy (pending_return s) then Some (Inr s)
      else
        (let col = ex div CELL_SIZE; row = ey div CELL_SIZE in
         if \<not> (0 \<le> row \<and> row < BOARD_SIZE \<and> 0 \<le> col \<and> col < BOARD_SIZE) then Some (Inr s)
         else
           (case get_valid_moves (board (game s)) (current_player (game s)) of
              None \<Rightarrow> None
            | Some moves \<Rightarrow>
                if (row, col) \<notin> set moves then Some (Inr s)
                else
                  (let s1 = stop_timer s in
                   case make_move_t2 (game s1) (current_player (game s1)) row col of
                     None \<Rightarrow> None
                   | Some (Inl e) \<Rightarrow> Some (Inl e)
                   | Some (Inr (g, None)) \<Rightarrow> Some (Inl TypeError)
                   | Some (Inr (g, Some flips)) \<Rightarrow>
                       (let s2 = s1\<lparr>game := g\<rparr> in
                        if length flips \<ge> 3 then
                          Some (Inr (s2\<lparr>pending_return := Some flips,
                                         return_origin := Some (row, col),
                                         handler := HandleReturnClick\<rparr>))
                        else
                          end_of_move
                            (log_move (MoveTxt (current_player (game s2)) row col None) s2))))))"

definition handle_return_click_t2 ::
  "'a gui_t2_scheme \<Rightarrow> int \<Rightarrow> int \<Rightarrow> (error + 'a gui_t2_scheme) option"
where
  "handle_return_click_t2 s ex ey =
     (let col = ex div CELL_SIZE; row = ey div CELL_SIZE in
      case pending_return s of
        None \<Rightarrow> Some (Inl TypeError)
      | Some cands \<Rightarrow>
          if (row, col) \<notin> set cands then Some (Inr s)
          else
            (case set_cell (board (game s)) row col (opponent (current_player (game s))) of
               Inl e \<Rightarrow> Some (Inl e)
             | Inr b' \<Rightarrow>
                 (case return_origin s of
                    None \<Rightarrow> Some (Inl TypeError)
                  | Some (ox, oy) \<Rightarrow>
                      (let s1 = s\<lparr>game := (game s)\<lparr>board := b'\<rparr>\<rparr>;
                           s2 = log_move (MoveTxt (current_player (game s1)) ox oy (Some (row, col))) s1;
                           s3 = s2\<lparr>pending_return := None, return_origin := None,
                                   handler := HandleClick\<rparr>
                       in end_of_move s3))))"

section \<open>The window of \<open>test3.py\<close>: the random opponent\<close>

text \<open>
  \<open>test3.py\<close> has no clock. \<open>ai_scheduled\<close> counts the \<open>root.after(500, self.ai_move)\<close>
  callbacks requested so far.
\<close>

record gui_t3 =
  game_t3 :: game_core
  vs_ai :: bool
  pending_return_t3 :: "coord list option"
  return_origin_t3 :: "coord option"
  log_t3 :: "log_entry list"
  outcome_t3 :: "outcome option"
  handler_t3 :: handler
  ai_scheduled :: nat

definition log_move_t3 :: "log_entry \<Rightarrow> gui_t3 \<Rightarrow> gui_t3" where
  "log_move_t3 txt s = s\<lparr>log_t3 := log_t3 s @ [txt]\<rparr>"

definition finish_game_t3 :: "gui_t3 \<Rightarrow> gui_t3" where
  "finish_game_t3 s =
     (case count_pieces (board (game_t3 s)) of (x_cnt, o_cnt) \<Rightarrow>
        (let result = (if x_cnt > o_cnt then XWins else if o_cnt > x_cnt then OWins else Draw)
         in s\<lparr>outcome_t3 := Some result, handler_t3 := Unbound\<rparr>))"

definition start_turn_t3 :: "gui_t3 \<Rightarrow> gui_t3" where
  "start_turn_t3 s =
     (if current_player (game_t3 s) = ''O'' \<and> vs_ai s then s\<lparr>ai_scheduled := ai_scheduled s + 1\<rparr>
      else s)"

definition set_player_t3 :: "string \<Rightarrow> gui_t3 \<Rightarrow> gui_t3" where
  "set_player_t3 p s = s\<lparr>game_t3 := (game_t3 s)\<lparr>current_player := p\<rparr>\<rparr>"

definition switch_player_t3 :: "gui_t3 \<Rightarrow> gui_t3 option" where
  "switch_player_t3 s =
     (let s1 = set_player_t3 (opponent (current_player (game_t3 s))) s in
      case get_valid_moves (board (game_t3 s1)) (current_player (game_t3 s1)) of
        None \<Rightarrow> None
      | Some moves \<Rightarrow>
          if moves \<noteq> [] then Some (start_turn_t3 s1)
          else
            (let s2 = log_move_t3 PASS s1;
                 s3 = set_player_t3 (opponent (current_player (game_t3 s2))) s2 in
             case get_valid_moves (board (game_t3 s3)) (current_player (game_t3 s3)) of
               None \<Rightarrow> None
             | Some moves' \<Rightarrow>
                 if moves' = [] then Some (finish_game_t3 s3) else Some (start_turn_t3 s3)))"

definition end_of_move_t3 :: "gui_t3 \<Rightarrow> gui_t3 option" where
  "end_of_move_t3 s =
     (case game_over (board (game_t3 s)) of
        None \<Rightarrow> None
      | Some over \<Rightarrow> if over then Some (finish_game_t3 s) else switch_player_t3 s)"

text \<open>\<open>ai_move\<close>; \<open>rnd1\<close> and \<open>rnd2\<close> are the draws of its two \<open>random.choice\<close> calls.\<close>

definition ai_move :: "gui_t3 \<Rightarrow> nat \<Rightarrow> nat \<Rightarrow> (error + gui_t3) option" where
  "ai_move s rnd1 rnd2 =
     (case get_valid_moves (board (game_t3 s)) ''O'' of
        None \<Rightarrow> None
      | Some moves \<Rightarrow>
          if moves = [] then map_option Inr (switch_player_t3 (log_move_t3 PASS s))
          else
            (case random_choice rnd1 moves of
               Inl e \<Rightarrow> Some (Inl e)
             | Inr (row, col) \<Rightarrow>
                 (case make_move_t2 (game_t3 s) ''O'' row col of
                    None \<Rightarrow> None
                  | Some (Inl e) \<Rightarrow> Some (Inl e)
                  | Some (Inr (g, None)) \<Rightarrow> Some (Inl TypeError)
                  | Some (Inr (g, Some flips)) \<Rightarrow>
                      (let s1 = s\<lparr>game_t3 := g\<rparr> in
                       if length flips \<ge> 3 then
                         (case random_choice rnd2 flips of
                            Inl e \<Rightarrow> Some (Inl e)
                          | Inr (rx, ry) \<Rightarrow>
                              (case set_cell (board (game_t3 s1)) rx ry ''X'' of
                                 Inl e \<Rightarrow> Some (Inl e)
                               | Inr b' \<Rightarrow>
                                   map_option Inr
                                    (end_of_move_t3
                                      (log_move_t3 (MoveTxt ''O'' row col (Some (rx, ry)))
                                        (s1\<lparr>game_t3 := (game_t3 s1)\<lparr>board := b'\<rparr>\<rparr>)))))
                       else
                         map_option Inr
                          (end_of_move_t3 (log_move_t3 (MoveTxt ''O'' row col None) s1))))))"

section \<open>Definitions used to state the properties\<close>

subsection \<open>The flip rule in the specification's words\<close>

text \<open>
  The cells met when walking from \<open>(x, y)\<close> in steps of \<open>(dr, dc)\<close>, \<open>n\<close> of them.
\<close>

fun ray :: "int \<Rightarrow> int \<Rightarrow> int \<Rightarrow> int \<Rightarrow> nat \<Rightarrow> coord list" where
  "ray x y dr dc 0 = []"
| "ray x y dr dc (Suc n) = (x, y) # ray (x + dr) (y + dc) dr dc n"

definition opp_at :: "board \<Rightarrow> string \<Rightarrow> coord \<Rightarrow> bool" where
  "opp_at b opp = (\<lambda>(x, y). inside x y \<and> cell b x y = opp)"

text \<open>
  The contiguous run of opponent cells that starts on the cell adjacent to \<open>(r, c)\<close> in
  direction \<open>d\<close>. Eight steps from a cell of the board always leave the board, so the
  first eight cells of the direction hold every run.
\<close>

definition run :: "board \<Rightarrow> string \<Rightarrow> int \<Rightarrow> int \<Rightarrow> int \<times> int \<Rightarrow> coord list" where
  "run b opp r c d =
     (case d of (dr, dc) \<Rightarrow> takeWhile (opp_at b opp) (ray (r + dr) (c + dc) dr dc 8))"

text \<open>The cell on which the run ends: the first cell of the direction after the run.\<close>

definition run_end :: "board \<Rightarrow> string \<Rightarrow> int \<Rightarrow> int \<Rightarrow> int \<times> int \<Rightarrow> coord" where
  "run_end b opp r c d =
     (case d of (dr, dc) \<Rightarrow>
        (let n = int (length (run b opp r c d)) + 1 in (r + n * dr, c + n * dc)))"

definition dir_flips :: "board \<Rightarrow> string \<Rightarrow> int \<Rightarrow> int \<Rightarrow> int \<times> int \<Rightarrow> coord list" where
  "dir_flips b side r c d =
     (let cells = run b (opponent side) r c d; e = run_end b (opponent side) r c d in
      if cells \<noteq> [] \<and> inside (fst e) (snd e) \<and> cell b (fst e) (snd e) = side
      then cells else [])"

definition computeFlips_spec :: "board \<Rightarrow> string \<Rightarrow> int \<Rightarrow> int \<Rightarrow> coord list" where
  "computeFlips_spec b side r c = concat (map (dir_flips b side r c) directions)"

subsection \<open>\<open>get_flips\<close> with its board reads recorded\<close>

text \<open>
  \<open>get_flips\<close> once more, with the short-circuit evaluation of \<open>and\<close> and \<open>or\<close> written
  out: \<open>self.board[x][y]\<close> is evaluated only after \<open>self.inside(x, y)\<close> has held, and each
  evaluation appends \<open>(x, y)\<close> to \<open>reads\<close>.
\<close>

partial_function (option) walk_reads ::
  "board \<Rightarrow> string \<Rightarrow> int \<Rightarrow> int \<Rightarrow> coord list \<Rightarrow> coord list \<Rightarrow> int \<Rightarrow> int \<Rightarrow>
   (coord list \<times> coord list \<times> int \<times> int) option"
where
  "walk_reads b opp dr dc flips reads x y =
     (if inside x y then
        (if cell b x y = opp
         then walk_reads b opp dr dc (flips @ [(x, y)]) (reads @ [(x, y)]) (x + dr) (y + dc)
         else Some (flips, reads @ [(x, y)], x, y))
      else Some (flips, reads, x, y))"

fun flips_loop_reads ::
  "board \<Rightarrow> string \<Rightarrow> int \<Rightarrow> int \<Rightarrow> (int \<times> int) list \<Rightarrow> coord list \<Rightarrow> coord list \<Rightarrow>
   (coord list \<times> coord list) option"
where
  "flips_loop_reads b player r c [] flips_total reads = Some (flips_total, reads)"
| "flips_loop_reads b player r c ((dr, dc) # ds) flips_total reads =
     (let opp = opponent player; x = r + dr; y = c + dc in
      if \<not> inside x y then flips_loop_reads b player r c ds flips_total reads
      else if cell b x y \<noteq> opp
      then flips_loop_reads b player r c ds flips_total (reads @ [(x, y)])
      else
        (case walk_reads b opp dr dc [] (reads @ [(x, y)]) x y of
           None \<Rightarrow> None
         | Some (flips, reads', x', y') \<Rightarrow>
             if inside x' y' then
               (if cell b x' y' = player \<and> flips \<noteq> []
                then flips_loop_reads b player r c ds (flips_total @ flips) (reads' @ [(x', y')])
                else flips_loop_reads b player r c ds flips_total (reads' @ [(x', y')]))
             else flips_loop_reads b player r c ds flips_total reads'))"

definition get_flips_reads ::
  "board \<Rightarrow> string \<Rightarrow> int \<Rightarrow> int \<Rightarrow> (coord list \<times> coord list) option"
where
  "get_flips_reads b player r c = flips_loop_reads b player r c directions [] []"

declare walk_reads.simps [code]

subsection \<open>Boards used as concrete inputs\<close>

text \<open>
  \<open>example_two_moves_board\<close> is the board of \<open>test.py\<close> after X has played (2,4) and O
  has played (2,5); \<open>example_fork_board\<close> is the board after X (2,4) and O (2,3);
  \<open>example_edge_board\<close> has one O on the top edge with an X below it;
  \<open>example_three_flips_board\<close> is the board after X (2,4), O (2,3), X (3,2), O (2,5).
\<close>

definition example_edge_board :: board where
  "example_edge_board = put (put empty_board 0 3 ''O'') 1 3 ''X''"

definition example_two_moves_board :: board where
  "example_two_moves_board =
     [[''.'', ''.'', ''.'', ''.'', ''.'', ''.'', ''.'', ''.''],
      [''.'', ''.'', ''.'', ''.'', ''.'', ''.'', ''.'', ''.''],
      [''.'', ''.'', ''.'', ''.'', ''X'', ''O'', ''.'', ''.''],
      [''.'', ''.'', ''.'', ''X'', ''O'', ''.'', ''.'', ''.''],
      [''.'', ''.'', ''.'', ''O'', ''X'', ''.'', ''.'', ''.''],
      [''.'', ''.'', ''.'', ''.'', ''.'', ''.'', ''.'', ''.''],
      [''.'', ''.'', ''.'', ''.'', ''.'', ''.'', ''.'', ''.''],
      [''.'', ''.'', ''.'', ''.'', ''.'', ''.'', ''.'', ''.'']]"

definition example_fork_board :: board where
  "example_fork_board =
     [[''.'', ''.'', ''.'', ''.'', ''.'', ''.'', ''.'', ''.''],
      [''.'', ''.'', ''.'', ''.'', ''.'', ''.'', ''.'', ''.''],
      [''.'', ''.'', ''.'', ''O'', ''X'', ''.'', ''.'', ''.''],
      [''.'', ''.'', ''.'', ''O'', ''X'', ''.'', ''.'', ''.''],
      [''.'', ''.'', ''.'', ''O'', ''X'', ''.'', ''.'', ''.''],
      [''.'', ''.'', ''.'', ''.'', ''.'', ''.'', ''.'', ''.''],
      [''.'', ''.'', ''.'', ''.'', ''.'', ''.'', ''.'', ''.''],
      [''.'', ''.'', ''.'', ''.'', ''.'', ''.'', ''.'', ''.'']]"

subsection \<open>Counts, invariant and reverted cells\<close>

text \<open>The component of \<open>count_pieces\<close> that counts the pieces of side \<open>p\<close>.\<close>

definition side_count :: "string \<Rightarrow> board \<Rightarrow> int" where
  "side_count p b = (if p = ''X'' then fst (count_pieces b) else snd (count_pieces b))"

definition example_three_flips_board :: board where
  "example_three_flips_board =
     [[''.'', ''.'', ''.'', ''.'', ''.'', ''.'', ''.'', ''.''],
      [''.'', ''.'', ''.'', ''.'', ''.'', ''.'', ''.'', ''.''],
      [''.'', ''.'', ''.'', ''O'', ''O'', ''O'', ''.'', ''.''],
      [''.'', ''.'', ''X'', ''X'', ''O'', ''.'', ''.'', ''.''],
      [''.'', ''.'', ''.'', ''O'', ''X'', ''.'', ''.'', ''.''],
      [''.'', ''.'', ''.'', ''.'', ''.'', ''.'', ''.'', ''.''],
      [''.'', ''.'', ''.'', ''.'', ''.'', ''.'', ''.'', ''.''],
      [''.'', ''.'', ''.'', ''.'', ''.'', ''.'', ''.'', ''.'']]"

text \<open>A game object and windows on a given board, used as concrete inputs.\<close>

definition example_game :: "board \<Rightarrow> string \<Rightarrow> game" where
  "example_game b p = \<lparr>board = b, current_player = p, extensions = [''X'' \<mapsto> 3, ''O'' \<mapsto> 3]\<rparr>"

text \<open>
  What every state of the window of \<open>test.py\<close> satisfies: an 8 by 8 board, a side to
  move, both budgets present and not negative, and a clock between 0 and 120.
\<close>

definition clock_inv :: "'a gui_scheme \<Rightarrow> bool" where
  "clock_inv s =
     (wf_board (board (game s)) \<and>
      (current_player (game s) = ''X'' \<or> current_player (game s) = ''O'') \<and>
      (\<exists>nx no. extensions (game s) ''X'' = Some nx \<and> extensions (game s) ''O'' = Some no \<and>
             0 \<le> nx \<and> 0 \<le> no) \<and>
      0 \<le> time_left s \<and> time_left s \<le> 120)"

text \<open>
  On \<open>example_pass_board\<close> O has no legal move and X has one; on \<open>example_dead_board\<close>
  neither side has one.
\<close>

definition example_pass_board :: board where
  "example_pass_board = put (put empty_board 0 0 ''X'') 0 1 ''O''"

definition example_dead_board :: board where
  "example_dead_board = put (put empty_board 0 0 ''X'') 7 7 ''O''"

definition example_gui :: "board \<Rightarrow> string \<Rightarrow> int \<Rightarrow> int \<Rightarrow> gui" where
  "example_gui b p n t =
     \<lparr>game = \<lparr>board = b, current_player = p, extensions = [''X'' \<mapsto> n, ''O'' \<mapsto> 3]\<rparr>,
      time_left = t, timer_id = False, timer_label = None, log = [], outcome = None,
      handler = HandleClick\<rparr>"

text \<open>
  The cells of the flip list \<open>F\<close> that hold the colour of \<open>player\<close>'s opponent on the
  board \<open>b'\<close>: the flipped cells that were given back.
\<close>

definition reverted :: "board \<Rightarrow> string \<Rightarrow> coord list \<Rightarrow> coord list" where
  "reverted b' player F = filter (\<lambda>(x, y). cell b' x y = opponent player) F"

text \<open>\<open>example_three_flips_board\<close> with the colours exchanged.\<close>

definition example_three_flips_board_O :: board where
  "example_three_flips_board_O =
     [[''.'', ''.'', ''.'', ''.'', ''.'', ''.'', ''.'', ''.''],
      [''.'', ''.'', ''.'', ''.'', ''.'', ''.'', ''.'', ''.''],
      [''.'', ''.'', ''.'', ''X'', ''X'', ''X'', ''.'', ''.''],
      [''.'', ''.'', ''O'', ''O'', ''X'', ''.'', ''.'', ''.''],
      [''.'', ''.'', ''.'', ''X'', ''O'', ''.'', ''.'', ''.''],
      [''.'', ''.'', ''.'', ''.'', ''.'', ''.'', ''.'', ''.''],
      [''.'', ''.'', ''.'', ''.'', ''.'', ''.'', ''.'', ''.''],
      [''.'', ''.'', ''.'', ''.'', ''.'', ''.'', ''.'', ''.'']]"

definition example_gui_t2 :: "board \<Rightarrow> string \<Rightarrow> gui_t2" where
  "example_gui_t2 b p =
     \<lparr>game = \<lparr>board = b, current_player = p, extensions = [''X'' \<mapsto> 3, ''O'' \<mapsto> 3]\<rparr>,
      time_left = 30, timer_id = True, timer_label = Some 31, log = [], outcome = None,
      handler = HandleClick, pending_return = None, return_origin = None\<rparr>"

definition example_gui_t3 :: "board \<Rightarrow> gui_t3" where
  "example_gui_t3 b =
     \<lparr>game_t3 = \<lparr>board = b, current_player = ''O''\<rparr>, vs_ai = True,
      pending_return_t3 = None, return_origin_t3 = None, log_t3 = [], outcome_t3 = None,
      handler_t3 = HandleClick, ai_scheduled = 1\<rparr>"

text \<open>
  Eight clicks on legal cells after which O is to move and X has no legal move, and the
  fields of a run's final state that the statements below compare.
\<close>

definition pass_position_clicks :: "event list" where
  "pass_position_clicks =
     [Click 250 130 0, Click 310 130 0, Click 370 130 0, Click 370 70 0,
      Click 130 250 0, Click 430 130 0, Click 430 10 1, Click 310 10 0]"

definition view :: "(error + gui) option \<Rightarrow>
    (error + string \<times> int option \<times> int \<times> log_entry list \<times> outcome option) option" where
  "view r = map_option (map_sum id (\<lambda>s. (current_player (game s),
       extensions (game s) (current_player (game s)), time_left s, log s, outcome s))) r"

section \<open>Properties of the flip computation\<close>

subsection \<open>The loop of \<open>get_flips\<close> returns, and what it returns\<close>

lemma walk_ray:
  "\<not> opp_at b opp (x + int n * dr, y + int n * dc) \<Longrightarrow>
   walk b opp dr dc flips x y =
     Some (flips @ takeWhile (opp_at b opp) (ray x y dr dc n),
           x + int (length (takeWhile (opp_at b opp) (ray x y dr dc n))) * dr,
           y + int (length (takeWhile (opp_at b opp) (ray x y dr dc n))) * dc)"
proof (induction n arbitrary: flips x y)
  case 0
  then have "\<not> (inside x y \<and> cell b x y = opp)" by (simp add: opp_at_def)
  then show ?case by (subst walk.simps) auto
next
  case (Suc n)
  show ?case
  proof (cases "opp_at b opp (x, y)")
    case True
    then have t: "inside x y \<and> cell b x y = opp" by (simp add: opp_at_def)
    have "\<not> opp_at b opp (x + dr + int n * dr, y + dc + int n * dc)"
      using Suc.prems by (simp add: algebra_simps)
    note ih = Suc.IH[OF this, of "flips @ [(x, y)]"]
    have "walk b opp dr dc flips x y = walk b opp dr dc (flips @ [(x, y)]) (x + dr) (y + dc)"
      using t by (subst walk.simps) auto
    with ih True show ?thesis by (simp add: algebra_simps)
  next
    case False
    then have "\<not> (inside x y \<and> cell b x y = opp)" by (simp add: opp_at_def)
    then have "walk b opp dr dc flips x y = Some (flips, x, y)"
      by (subst walk.simps) auto
    with False show ?thesis by simp
  qed
qed

lemma direction_cases:
  "(dr, dc) \<in> set directions \<Longrightarrow>
   (dr = 1 \<or> dr = -1 \<or> dr = 0) \<and> (dc = 1 \<or> dc = -1 \<or> dc = 0) \<and> (dr \<noteq> 0 \<or> dc \<noteq> 0)"
  by (auto simp: directions_def)

lemma leaves_board:
  "(dr, dc) \<in> set directions \<Longrightarrow> inside x y \<Longrightarrow> \<not> inside (x + 8 * dr) (y + 8 * dc)"
  by (drule direction_cases) (auto simp: inside_def BOARD_SIZE_def)

lemma walk_directions:
  assumes "(dr, dc) \<in> set directions" and "inside x y"
  shows "walk b opp dr dc [] x y =
     Some (takeWhile (opp_at b opp) (ray x y dr dc 8),
           x + int (length (takeWhile (opp_at b opp) (ray x y dr dc 8))) * dr,
           y + int (length (takeWhile (opp_at b opp) (ray x y dr dc 8))) * dc)"
proof -
  have "\<not> opp_at b opp (x + int 8 * dr, y + int 8 * dc)"
    using leaves_board[OF assms] by (simp add: opp_at_def)
  from walk_ray[OF this, of "[]"] show ?thesis by simp
qed

lemma run_Nil_iff:
  "run b opp r c (dr, dc) = [] \<longleftrightarrow> \<not> inside (r + dr) (c + dc) \<or> cell b (r + dr) (c + dc) \<noteq> opp"
  by (simp add: run_def opp_at_def eval_nat_numeral)

lemma flips_loop_spec:
  "set ds \<subseteq> set directions \<Longrightarrow>
   flips_loop b player r c ds acc = Some (acc @ concat (map (dir_flips b player r c) ds))"
proof (induction ds arbitrary: acc)
  case Nil
  then show ?case by simp
next
  case (Cons d ds)
  obtain dr dc where d: "d = (dr, dc)" by (cases d)
  have din: "(dr, dc) \<in> set directions" and sub: "set ds \<subseteq> set directions"
    using Cons.prems d by auto
  show ?case
  proof (cases "\<not> inside (r + dr) (c + dc) \<or> cell b (r + dr) (c + dc) \<noteq> opponent player")
    case True
    then have "dir_flips b player r c (dr, dc) = []"
      using run_Nil_iff[of b "opponent player" r c dr dc] by (simp add: dir_flips_def Let_def)
    with True Cons.IH[OF sub] d show ?thesis by (simp add: Let_def)
  next
    case False
    then have ins: "inside (r + dr) (c + dc)" by simp
    from False have ne: "run b (opponent player) r c (dr, dc) \<noteq> []"
      using run_Nil_iff[of b "opponent player" r c dr dc] by simp
    show ?thesis
      using False d Cons.IH[OF sub] walk_directions[OF din ins, of b "opponent player"] ne
      by (simp add: Let_def dir_flips_def run_end_def run_def algebra_simps)
  qed
qed

lemma get_flips_spec: "get_flips b player r c = Some (computeFlips_spec b player r c)"
  by (simp add: get_flips_def computeFlips_spec_def flips_loop_spec)

subsection \<open>Where the flipped cells lie\<close>

lemma ray_eq_map:
  "ray x y dr dc n = map (\<lambda>k. (x + int k * dr, y + int k * dc)) [0..<n]"
proof (induction n arbitrary: x y)
  case 0
  then show ?case by simp
next
  case (Suc n)
  have "map (\<lambda>k. (x + int k * dr, y + int k * dc)) [0..<Suc n] =
        (x, y) # map (\<lambda>k. (x + int (Suc k) * dr, y + int (Suc k) * dc)) [0..<n]"
    by (simp only: upt_conv_Cons[of 0 "Suc n"] map_Suc_upt[symmetric]) simp
  then show ?case using Suc.IH[of "x + dr" "y + dc"] by (simp add: algebra_simps)
qed

lemma distinct_ray:
  assumes "dr \<noteq> 0 \<or> dc \<noteq> 0"
  shows "distinct (ray x y dr dc n)"
proof -
  have "inj_on (\<lambda>k. (x + int k * dr, y + int k * dc)) (set [0..<n])"
    using assms by (auto simp: inj_on_def)
  then show ?thesis by (simp add: ray_eq_map distinct_map)
qed

lemma run_cells:
  assumes "p \<in> set (run b opp r c (dr, dc))"
  shows "opp_at b opp p" and "\<exists>k::int. 1 \<le> k \<and> p = (r + k * dr, c + k * dc)"
proof -
  from assms have tw: "p \<in> set (takeWhile (opp_at b opp) (ray (r + dr) (c + dc) dr dc 8))"
    by (simp add: run_def)
  from set_takeWhileD[OF tw] show "opp_at b opp p" by simp
  from set_takeWhileD[OF tw] obtain k where "p = (r + dr + int k * dr, c + dc + int k * dc)"
    by (auto simp: ray_eq_map)
  then have "1 \<le> int k + 1 \<and> p = (r + (int k + 1) * dr, c + (int k + 1) * dc)"
    by (simp add: algebra_simps)
  then show "\<exists>k::int. 1 \<le> k \<and> p = (r + k * dr, c + k * dc)" by blast
qed

lemma distinct_run: "d \<in> set directions \<Longrightarrow> distinct (run b opp r c d)"
  by (cases d) (auto simp: run_def dest!: direction_cases intro!: distinct_takeWhile distinct_ray)

lemma dir_flips_subset: "set (dir_flips b side r c d) \<subseteq> set (run b (opponent side) r c d)"
  by (auto simp: dir_flips_def Let_def)

lemma distinct_dir_flips: "d \<in> set directions \<Longrightarrow> distinct (dir_flips b side r c d)"
  by (simp add: dir_flips_def Let_def distinct_run)

lemma rays_disjoint:
  assumes "d \<in> set directions" "d' \<in> set directions" "d \<noteq> d'"
    and "(1::int) \<le> k" "(1::int) \<le> k'"
    and "(r + k * fst d, c + k * snd d) = (r + k' * fst d', c + k' * snd d')"
  shows False
  using assms by (auto simp: directions_def)

lemma dir_flips_disjoint:
  assumes "d \<in> set directions" "d' \<in> set directions" "d \<noteq> d'"
  shows "set (dir_flips b side r c d) \<inter> set (dir_flips b side r c d') = {}"
proof (rule ccontr)
  assume "set (dir_flips b side r c d) \<inter> set (dir_flips b side r c d') \<noteq> {}"
  then obtain p where p: "p \<in> set (run b (opponent side) r c d)"
      "p \<in> set (run b (opponent side) r c d')"
    using dir_flips_subset by blast
  obtain dr dc dr' dc' where d: "d = (dr, dc)" "d' = (dr', dc')" by (cases d, cases d')
  from run_cells(2)[OF p(1)[unfolded d]] obtain k where k: "1 \<le> k" "p = (r + k * dr, c + k * dc)"
    by blast
  from run_cells(2)[OF p(2)[unfolded d]] obtain k' where k': "1 \<le> k'" "p = (r + k' * dr', c + k' * dc')"
    by blast
  from rays_disjoint[OF assms k(1) k'(1)] k(2) k'(2) d show False by simp
qed

lemma distinct_concat_map:
  "distinct ds \<Longrightarrow> (\<And>d. d \<in> set ds \<Longrightarrow> distinct (f d)) \<Longrightarrow>
   (\<And>d d'. d \<in> set ds \<Longrightarrow> d' \<in> set ds \<Longrightarrow> d \<noteq> d' \<Longrightarrow> set (f d) \<inter> set (f d') = {}) \<Longrightarrow>
   distinct (concat (map f ds))"
  by (induction ds) fastforce+

lemma distinct_directions: "distinct directions"
  by (simp add: directions_def)

lemma distinct_flips: "distinct (computeFlips_spec b side r c)"
  unfolding computeFlips_spec_def
  by (rule distinct_concat_map[OF distinct_directions])
     (simp_all add: distinct_dir_flips dir_flips_disjoint)

lemma flips_cells:
  assumes "p \<in> set (computeFlips_spec b side r c)"
  shows "inside (fst p) (snd p)" and "cell b (fst p) (snd p) = opponent side" and "p \<noteq> (r, c)"
proof -
  from assms obtain d where d: "d \<in> set directions" "p \<in> set (dir_flips b side r c d)"
    by (auto simp: computeFlips_spec_def)
  then have pr: "p \<in> set (run b (opponent side) r c d)" using dir_flips_subset by blast
  obtain dr dc where dd: "d = (dr, dc)" by (cases d)
  from run_cells(1)[OF pr[unfolded dd]]
  show "inside (fst p) (snd p)" and "cell b (fst p) (snd p) = opponent side"
    by (auto simp: opp_at_def split: prod.splits)
  from run_cells(2)[OF pr[unfolded dd]] obtain k where "1 \<le> k" "p = (r + k * dr, c + k * dc)"
    by blast
  with direction_cases[OF d(1)[unfolded dd]] show "p \<noteq> (r, c)" by auto
qed

subsection \<open>The recorded reads\<close>

lemma walk_reads_ray:
  "\<not> opp_at b opp (x + int n * dr, y + int n * dc) \<Longrightarrow>
   \<exists>rd. walk_reads b opp dr dc flips reads x y =
     Some (flips @ takeWhile (opp_at b opp) (ray x y dr dc n), rd,
           x + int (length (takeWhile (opp_at b opp) (ray x y dr dc n))) * dr,
           y + int (length (takeWhile (opp_at b opp) (ray x y dr dc n))) * dc)
     \<and> set rd \<subseteq> set reads \<union> {p. inside (fst p) (snd p)}"
proof (induction n arbitrary: flips reads x y)
  case 0
  then have "\<not> (inside x y \<and> cell b x y = opp)" by (simp add: opp_at_def)
  then show ?case by (subst walk_reads.simps) auto
next
  case (Suc n)
  show ?case
  proof (cases "opp_at b opp (x, y)")
    case True
    then have t: "inside x y \<and> cell b x y = opp" by (simp add: opp_at_def)
    have "\<not> opp_at b opp (x + dr + int n * dr, y + dc + int n * dc)"
      using Suc.prems by (simp add: algebra_simps)
    from Suc.IH[OF this, of "flips @ [(x, y)]" "reads @ [(x, y)]"]
    obtain rd where rd: "walk_reads b opp dr dc (flips @ [(x, y)]) (reads @ [(x, y)]) (x + dr) (y + dc) =
       Some ((flips @ [(x, y)]) @ takeWhile (opp_at b opp) (ray (x + dr) (y + dc) dr dc n), rd,
             x + dr + int (length (takeWhile (opp_at b opp) (ray (x + dr) (y + dc) dr dc n))) * dr,
             y + dc + int (length (takeWhile (opp_at b opp) (ray (x + dr) (y + dc) dr dc n))) * dc)"
      and sub: "set rd \<subseteq> set (reads @ [(x, y)]) \<union> {p. inside (fst p) (snd p)}"
      by blast
    have "walk_reads b opp dr dc flips reads x y =
          walk_reads b opp dr dc (flips @ [(x, y)]) (reads @ [(x, y)]) (x + dr) (y + dc)"
      using t by (subst walk_reads.simps) auto
    with rd True have "walk_reads b opp dr dc flips reads x y =
       Some (flips @ takeWhile (opp_at b opp) (ray x y dr dc (Suc n)), rd,
           x + int (length (takeWhile (opp_at b opp) (ray x y dr dc (Suc n)))) * dr,
           y + int (length (takeWhile (opp_at b opp) (ray x y dr dc (Suc n)))) * dc)"
      by (simp add: algebra_simps)
    moreover have "set rd \<subseteq> set reads \<union> {p. inside (fst p) (snd p)}"
      using sub t by auto
    ultimately show ?thesis by blast
  next
    case False
    then have "\<not> (inside x y \<and> cell b x y = opp)" by (simp add: opp_at_def)
    then have "walk_reads b opp dr dc flips reads x y =
        Some (flips, if inside x y then reads @ [(x, y)] else reads, x, y)"
      by (subst walk_reads.simps) auto
    with False show ?thesis by auto
  qed
qed

lemma flips_loop_reads_spec:
  "set ds \<subseteq> set directions \<Longrightarrow>
   \<exists>rd. flips_loop_reads b player r c ds acc reads =
          Some (acc @ concat (map (dir_flips b player r c) ds), rd)
        \<and> set rd \<subseteq> set reads \<union> {p. inside (fst p) (snd p)}"
proof (induction ds arbitrary: acc reads)
  case Nil
  then show ?case by simp
next
  case (Cons d ds)
  obtain dr dc where d: "d = (dr, dc)" by (cases d)
  have din: "(dr, dc) \<in> set directions" and sub: "set ds \<subseteq> set directions"
    using Cons.prems d by auto
  let ?P = "{p. inside (fst p) (snd p)}"
  let ?x = "r + dr" and ?y = "c + dc"
  have step: "\<And>acc' reads'. set reads' \<subseteq> set reads \<union> ?P \<Longrightarrow>
     \<exists>rd. flips_loop_reads b player r c ds acc' reads' =
          Some (acc' @ concat (map (dir_flips b player r c) ds), rd) \<and> set rd \<subseteq> set reads \<union> ?P"
  proof -
    fix acc' reads' assume a: "set reads' \<subseteq> set reads \<union> ?P"
    from Cons.IH[OF sub, of acc' reads'] obtain rd where
      "flips_loop_reads b player r c ds acc' reads' =
          Some (acc' @ concat (map (dir_flips b player r c) ds), rd)"
      "set rd \<subseteq> set reads' \<union> ?P" by blast
    with a show "\<exists>rd. flips_loop_reads b player r c ds acc' reads' =
          Some (acc' @ concat (map (dir_flips b player r c) ds), rd) \<and> set rd \<subseteq> set reads \<union> ?P"
      by blast
  qed
  show ?case
  proof (cases "inside ?x ?y")
    case False
    then have "dir_flips b player r c (dr, dc) = []"
      using run_Nil_iff[of b "opponent player" r c dr dc] by (simp add: dir_flips_def Let_def)
    with False step[of reads acc] d show ?thesis by (simp add: Let_def)
  next
    case ins: True
    show ?thesis
    proof (cases "cell b ?x ?y \<noteq> opponent player")
      case True
      then have "dir_flips b player r c (dr, dc) = []"
        using run_Nil_iff[of b "opponent player" r c dr dc] by (simp add: dir_flips_def Let_def)
      moreover have "set (reads @ [(?x, ?y)]) \<subseteq> set reads \<union> ?P" using ins by auto
      ultimately show ?thesis using True ins step[of "reads @ [(?x, ?y)]" acc] d
        by (simp add: Let_def)
    next
      case False
      let ?tw = "takeWhile (opp_at b (opponent player)) (ray ?x ?y dr dc 8)"
      let ?ex = "?x + int (length ?tw) * dr" and ?ey = "?y + int (length ?tw) * dc"
      have ne: "run b (opponent player) r c (dr, dc) \<noteq> []"
        using False ins run_Nil_iff[of b "opponent player" r c dr dc] by simp
      have "\<not> opp_at b (opponent player) (?x + int 8 * dr, ?y + int 8 * dc)"
        using leaves_board[OF din ins] by (simp add: opp_at_def)
      from walk_reads_ray[OF this, of "[]" "reads @ [(?x, ?y)]"] obtain rd where
        w: "walk_reads b (opponent player) dr dc [] (reads @ [(?x, ?y)]) ?x ?y = Some (?tw, rd, ?ex, ?ey)"
        and rd: "set rd \<subseteq> set (reads @ [(?x, ?y)]) \<union> ?P"
        by auto
      have rd': "set rd \<subseteq> set reads \<union> ?P" using rd ins by auto
      have e: "run_end b (opponent player) r c (dr, dc) = (?ex, ?ey)"
        by (simp add: run_end_def run_def Let_def algebra_simps)
      have r: "run b (opponent player) r c (dr, dc) = ?tw" by (simp add: run_def)
      have tw: "?tw \<noteq> []" using ne r by simp
      have df: "dir_flips b player r c (dr, dc) =
          (if inside ?ex ?ey \<and> cell b ?ex ?ey = player then ?tw else [])"
        unfolding dir_flips_def Let_def e r using tw by simp
      have unf: "flips_loop_reads b player r c (d # ds) acc reads =
          (if inside ?ex ?ey then
             (if cell b ?ex ?ey = player
              then flips_loop_reads b player r c ds (acc @ ?tw) (rd @ [(?ex, ?ey)])
              else flips_loop_reads b player r c ds acc (rd @ [(?ex, ?ey)]))
           else flips_loop_reads b player r c ds acc rd)"
        unfolding d flips_loop_reads.simps Let_def using False ins w tw by simp
      show ?thesis
      proof (cases "inside ?ex ?ey")
        case True
        then have sub': "set (rd @ [(?ex, ?ey)]) \<subseteq> set reads \<union> ?P" using rd' by auto
        show ?thesis
        proof (cases "cell b ?ex ?ey = player")
          case c: True
          from step[OF sub', of "acc @ ?tw"] show ?thesis
            unfolding unf using True c df d by simp
        next
          case c: False
          from step[OF sub', of acc] show ?thesis
            unfolding unf using True c df d by simp
        qed
      next
        case F2: False
        from step[OF rd', of acc] show ?thesis
          unfolding unf using F2 df d by simp
      qed
    qed
  qed
qed

lemma get_flips_reads_spec:
  "\<exists>rd. get_flips_reads b player r c = Some (computeFlips_spec b player r c, rd)
       \<and> list_all (\<lambda>(x, y). inside x y) rd"
proof -
  from flips_loop_reads_spec[of directions b player r c "[]" "[]"]
  obtain rd where rd: "flips_loop_reads b player r c directions [] [] =
      Some (concat (map (dir_flips b player r c) directions), rd)"
    and sub: "set rd \<subseteq> {p. inside (fst p) (snd p)}" by auto
  from sub have "list_all (\<lambda>(x, y). inside x y) rd"
    unfolding list_all_iff by fastforce
  with rd show ?thesis
    by (simp add: get_flips_reads_def computeFlips_spec_def)
qed

subsection \<open>\<open>get_valid_moves\<close>\<close>

lemma valid_scan_filter:
  "valid_scan b player cells moves =
     Some (moves @ filter (\<lambda>(r, c). cell b r c = ''.'' \<and> computeFlips_spec b player r c \<noteq> []) cells)"
proof (induction cells arbitrary: moves)
  case Nil
  then show ?case by simp
next
  case (Cons p cells)
  obtain r c where p: "p = (r, c)" by (cases p)
  show ?case unfolding p by (simp add: get_flips_spec Cons.IH)
qed

lemma get_valid_moves_filter:
  "get_valid_moves b player =
     Some (filter (\<lambda>(r, c). cell b r c = ''.'' \<and> computeFlips_spec b player r c \<noteq> []) all_cells)"
  by (simp add: get_valid_moves_def valid_scan_filter)

lemma all_cells_inside: "(r, c) \<in> set all_cells \<longleftrightarrow> inside r c"
  by (force simp: all_cells_def inside_def BOARD_SIZE_def)

lemma valid_move_iff:
  "get_valid_moves b player = Some moves \<Longrightarrow>
   (r, c) \<in> set moves \<longleftrightarrow> inside r c \<and> cell b r c = ''.'' \<and> computeFlips_spec b player r c \<noteq> []"
  by (auto simp: get_valid_moves_filter all_cells_inside)

section \<open>The flip computation: results\<close>

text \<open>
  Claim C10. For every board, player and integer coordinates \<open>(r, c)\<close>, on the board or
  not, \<open>get_flips\<close> returns; every \<open>board[x][y]\<close> it evaluates has \<open>inside x y\<close>; every
  coordinate it returns is on the board and differs from \<open>(r, c)\<close>; and the returned
  coordinates are pairwise distinct.
\<close>

theorem get_flips_total_bounded_distinct:
  "\<exists>flips reads.
     get_flips b player r c = Some flips \<and>
     get_flips_reads b player r c = Some (flips, reads) \<and>
     list_all (\<lambda>(x, y). inside x y) reads \<and>
     list_all (\<lambda>(x, y). inside x y \<and> (x, y) \<noteq> (r, c)) flips \<and>
     distinct flips"
proof -
  let ?F = "computeFlips_spec b player r c"
  from get_flips_reads_spec[of b player r c] obtain rd where
    rd: "get_flips_reads b player r c = Some (?F, rd)" "list_all (\<lambda>(x, y). inside x y) rd"
    by blast
  have "list_all (\<lambda>(x, y). inside x y \<and> (x, y) \<noteq> (r, c)) ?F"
    unfolding list_all_iff using flips_cells(1,3)[of _ b player r c] by fastforce
  with rd get_flips_spec[of b player r c] distinct_flips[of b player r c]
  show ?thesis by blast
qed

text \<open>
  The move \<open>(-1, 3)\<close> lies off the board, and \<open>get_flips\<close> still returns a flip for it.
\<close>

theorem get_flips_total_bounded_distinct_witness:
  "get_flips example_edge_board ''X'' (-1) 3 = Some [(0, 3)] \<and>
   (\<exists>reads. get_flips_reads example_edge_board ''X'' (-1) 3 = Some ([(0, 3)], reads) \<and>
      list_all (\<lambda>(x, y). inside x y) reads) \<and>
   list_all (\<lambda>(x, y). inside x y \<and> (x, y) \<noteq> (-1, 3)) [(0, 3)]"
proof -
  have e: "get_flips example_edge_board ''X'' (-1) 3 = Some [(0, 3)]" by code_simp
  from get_flips_total_bounded_distinct[of example_edge_board "''X''" "-1" 3] e
  show ?thesis by auto
qed

text \<open>
  Claim C2. \<open>get_flips\<close> returns exactly the concatenation, over the eight directions in
  the order of the list \<open>directions\<close>, of the run of opponent cells that starts next to
  \<open>(r, c)\<close>, a direction being included only when its run is not empty and ends on the
  board on a cell of the moving side; a direction whose run leaves the board, ends on an
  empty cell, or is empty contributes nothing. (The target cell itself is not looked at,
  so the statement holds for every target, empty or not.)
\<close>

theorem get_flips_refines_computeFlips_spec:
  assumes "side = ''X'' \<or> side = ''O''"
  shows "get_flips b side r c = Some (computeFlips_spec b side r c) \<and>
         computeFlips_spec b side r c = concat (map (dir_flips b side r c) directions) \<and>
         (\<forall>d \<in> set directions.
            dir_flips b side r c d =
              (if run b (opponent side) r c d \<noteq> [] \<and>
                  inside (fst (run_end b (opponent side) r c d)) (snd (run_end b (opponent side) r c d)) \<and>
                  cell b (fst (run_end b (opponent side) r c d)) (snd (run_end b (opponent side) r c d)) = side
               then run b (opponent side) r c d else []) \<and>
            (\<not> inside (fst (run_end b (opponent side) r c d)) (snd (run_end b (opponent side) r c d)) \<or>
             cell b (fst (run_end b (opponent side) r c d)) (snd (run_end b (opponent side) r c d)) = ''.'' \<or>
             run b (opponent side) r c d = []
             \<longrightarrow> dir_flips b side r c d = []))"
  using assms by (auto simp: get_flips_spec computeFlips_spec_def dir_flips_def Let_def)

text \<open>
  A move that flips in two directions at once.
\<close>

theorem get_flips_refines_computeFlips_spec_witness:
  "(''X'' = ''X'' \<or> ''X'' = ''O'') \<and>
   get_flips example_fork_board ''X'' 2 2 = Some [(2, 3), (3, 3)] \<and>
   dir_flips example_fork_board ''X'' 2 2 (0, 1) = [(2, 3)] \<and>
   dir_flips example_fork_board ''X'' 2 2 (1, 1) = [(3, 3)] \<and>
   dir_flips example_fork_board ''X'' 2 2 (1, 0) = []"
proof -
  have e: "computeFlips_spec example_fork_board ''X'' 2 2 = [(2, 3), (3, 3)]" by code_simp
  have d: "dir_flips example_fork_board ''X'' 2 2 (0, 1) = [(2, 3)]"
    "dir_flips example_fork_board ''X'' 2 2 (1, 1) = [(3, 3)]"
    "dir_flips example_fork_board ''X'' 2 2 (1, 0) = []" by code_simp+
  from get_flips_refines_computeFlips_spec[of "''X''" example_fork_board 2 2] e d
  show ?thesis by simp
qed




text \<open>
  Claim C8 as stated fails: \<open>init_board\<close> puts X on (3,3) and (4,4), so on the initial
  board X's move at (2,3) flips nothing, is not among the legal moves, and \<open>make_move\<close>
  returns \<open>(None, None)\<close> and leaves the counts at 2 and 2.
\<close>

theorem initial_move_2_3_counterexample:
  "get_flips (init_board empty_board) ''X'' 2 3 = Some [] \<and>
   get_valid_moves (init_board empty_board) ''X'' = Some [(2, 4), (3, 5), (4, 2), (5, 3)] \<and>
   map_option (map_sum id (\<lambda>(g, fl, rp). (count_pieces (board g), fl, rp)))
     (make_move new_game ''X'' 2 3 0) = Some (Inr ((2, 2), None, None))"
  by code_simp

text \<open>
  Claim C8, amended. On the initial board X's move at (2,4) is legal, its flips are exactly
  \<open>[(3, 4)]\<close>, applying it gives the counts X = 4 and O = 1, and no piece is returned
  (\<open>return_pos\<close> is \<open>None\<close>), whatever the random draw.
\<close>

theorem initial_move_2_4:
  "board new_game = init_board empty_board \<and> current_player new_game = ''X'' \<and>
   get_valid_moves (board new_game) ''X'' = Some [(2, 4), (3, 5), (4, 2), (5, 3)] \<and>
   get_flips (board new_game) ''X'' 2 4 = Some [(3, 4)] \<and>
   (\<exists>g'. make_move new_game ''X'' 2 4 rnd = Some (Inr (g', Some [(3, 4)], None)) \<and>
         count_pieces (board g') = (4, 1)) \<and>
   (\<exists>g'. make_move_t2 new_game ''X'' 2 4 = Some (Inr (g', Some [(3, 4)])) \<and>
         count_pieces (board g') = (4, 1))"
proof -
  have b: "board new_game = init_board empty_board" "current_player new_game = ''X''"
    by (simp_all add: new_game_def)
  have v: "get_valid_moves (init_board empty_board) ''X'' = Some [(2, 4), (3, 5), (4, 2), (5, 3)]"
    by code_simp
  have f: "get_flips (init_board empty_board) ''X'' 2 4 = Some [(3, 4)]" by code_simp
  have s: "set_cell (init_board empty_board) 2 4 ''X'' = Inr (put (init_board empty_board) 2 4 ''X'')"
    by code_simp
  have a: "set_cell (put (init_board empty_board) 2 4 ''X'') 3 4 ''X'' =
      Inr (put (put (init_board empty_board) 2 4 ''X'') 3 4 ''X'')" by code_simp
  have c: "count_pieces (put (put (init_board empty_board) 2 4 ''X'') 3 4 ''X'') = (4, 1)"
    by code_simp
  show ?thesis
    unfolding b make_move_def make_move_t2_def by (simp add: v f s a c b)
qed

text \<open>
  The same at the draw 7.
\<close>

theorem initial_move_2_4_witness:
  "map_option (map_sum id (\<lambda>(g, fl, rp). (count_pieces (board g), fl, rp)))
     (make_move new_game ''X'' 2 4 7) = Some (Inr ((4, 1), Some [(3, 4)], None))"
proof -
  from initial_move_2_4[of 7] obtain g' where
    "make_move new_game ''X'' 2 4 7 = Some (Inr (g', Some [(3, 4)], None))"
    "count_pieces (board g') = (4, 1)" by blast
  then show ?thesis by simp
qed

section \<open>Applying a move\<close>

subsection \<open>Writing a cell\<close>

lemma wf_boardD: "wf_board b \<Longrightarrow> length b = 8" "wf_board b \<Longrightarrow> i < 8 \<Longrightarrow> length (b ! i) = 8"
  by (simp_all add: wf_board_def list_all_length)

lemma inside_index:
  assumes "wf_board b" "inside r c"
  shows "nat r < 8" "nat c < 8" "length b = 8" "length (b ! nat r) = 8" "0 \<le> r" "0 \<le> c"
    "r < 8" "c < 8"
proof -
  show r: "nat r < 8" and "nat c < 8" and "0 \<le> r" and "0 \<le> c" and "r < 8" and "c < 8"
    using assms(2) by (auto simp: inside_def BOARD_SIZE_def)
  show "length b = 8" using assms(1) by (rule wf_boardD)
  show "length (b ! nat r) = 8" using assms(1) r by (rule wf_boardD)
qed

lemma set_cell_inside:
  "wf_board b \<Longrightarrow> inside r c \<Longrightarrow> set_cell b r c v = Inr (put b (nat r) (nat c) v)"
  by (simp add: set_cell_def py_index_def put_def inside_index)

lemma wf_put: "wf_board b \<Longrightarrow> wf_board (put b i j v)"
proof (cases "i < length b")
  case True
  assume "wf_board b"
  with True show ?thesis
    by (auto simp: wf_board_def put_def list_all_length nth_list_update)
next
  case False
  assume "wf_board b"
  with False show ?thesis by (simp add: put_def list_update_beyond not_less)
qed

lemma cell_put:
  "wf_board b \<Longrightarrow> inside r c \<Longrightarrow> inside x y \<Longrightarrow>
   cell (put b (nat r) (nat c) v) x y = (if x = r \<and> y = c then v else cell b x y)"
proof -
  assume wf: "wf_board b" and rc: "inside r c" and xy: "inside x y"
  note i = inside_index[OF wf rc] and j = inside_index[OF wf xy]
  have "nat x = nat r \<longleftrightarrow> x = r" "nat y = nat c \<longleftrightarrow> y = c"
    using i(5,6) j(5,6) by auto
  then show ?thesis
    using i(1-4) j(1-4) by (auto simp: cell_def put_def nth_list_update)
qed

lemma count_list_update:
  "i < length xs \<Longrightarrow>
   int (count_list (xs[i := v]) q) =
     int (count_list xs q) - (if xs ! i = q then 1 else 0) + (if v = q then 1 else 0)"
proof (induction xs arbitrary: i)
  case Nil
  then show ?case by simp
next
  case (Cons x xs)
  show ?case
  proof (cases i)
    case 0
    then show ?thesis by simp
  next
    case (Suc j)
    with Cons.prems have "j < length xs" by simp
    from Cons.IH[OF this] Suc show ?thesis by (auto split: if_splits)
  qed
qed

lemma sum_list_map_update:
  "i < length xs \<Longrightarrow>
   sum_list (map f (xs[i := x])) = sum_list (map f xs) - f (xs ! i) + (f x :: int)"
proof (induction xs arbitrary: i)
  case Nil
  then show ?case by simp
next
  case (Cons y ys)
  show ?case
  proof (cases i)
    case 0
    then show ?thesis by simp
  next
    case (Suc j)
    with Cons.prems have "j < length ys" by simp
    from Cons.IH[OF this] Suc show ?thesis by simp
  qed
qed

lemma count_put:
  assumes "wf_board b" "inside r c"
  shows "sum_list (map (\<lambda>row. int (count_list row q)) (put b (nat r) (nat c) v)) =
         sum_list (map (\<lambda>row. int (count_list row q)) b)
           - (if cell b r c = q then 1 else 0) + (if v = q then 1 else 0)"
proof -
  have i: "nat r < length b" and j: "nat c < length (b ! nat r)"
    using assms by (simp_all add: inside_index)
  show ?thesis
    unfolding put_def
    by (simp add: sum_list_map_update[OF i] count_list_update[OF j] cell_def)
qed

lemma side_count_put:
  assumes "wf_board b" "inside r c"
  shows "side_count p (put b (nat r) (nat c) v) =
         side_count p b - (if cell b r c = (if p = ''X'' then ''X'' else ''O'') then 1 else 0)
           + (if v = (if p = ''X'' then ''X'' else ''O'') then 1 else 0)"
  unfolding side_count_def count_pieces_def using count_put[OF assms] by simp

lemma opponent_neq: "opponent p \<noteq> p"
  by (auto simp: opponent_def)

lemma opponent_cases: "p = ''X'' \<or> p = ''O'' \<Longrightarrow> opponent (opponent p) = p"
  by (auto simp: opponent_def)

lemma side_count_put_player:
  assumes "wf_board b" "inside r c" "p = ''X'' \<or> p = ''O''" "q = ''X'' \<or> q = ''O''"
  shows "side_count q (put b (nat r) (nat c) v) =
         side_count q b - (if cell b r c = q then 1 else 0) + (if v = q then 1 else 0)"
  using side_count_put[OF assms(1,2), of q v] assms(4) by auto

subsection \<open>The flips loop of \<open>make_move\<close>\<close>

lemma apply_flips_ok:
  assumes "wf_board b" "distinct fs"
    and "\<forall>p \<in> set fs. inside (fst p) (snd p) \<and> cell b (fst p) (snd p) = opponent player"
    and "player = ''X'' \<or> player = ''O''"
  shows "\<exists>b'. apply_flips b player fs = Inr b' \<and> wf_board b' \<and>
           (\<forall>x y. inside x y \<longrightarrow>
              cell b' x y = (if (x, y) \<in> set fs then player else cell b x y)) \<and>
           side_count player b' = side_count player b + int (length fs) \<and>
           side_count (opponent player) b' = side_count (opponent player) b - int (length fs)"
  using assms(1-3)
proof (induction fs arbitrary: b)
  case Nil
  then show ?case by simp
next
  case (Cons f fs)
  obtain fx fy where f: "f = (fx, fy)" by (cases f)
  have ins: "inside fx fy" and old: "cell b fx fy = opponent player"
    using Cons.prems(3) f by auto
  let ?b1 = "put b (nat fx) (nat fy) player"
  have sc: "set_cell b fx fy player = Inr ?b1" by (rule set_cell_inside[OF Cons.prems(1) ins])
  have wf1: "wf_board ?b1" by (rule wf_put[OF Cons.prems(1)])
  have opp: "opponent player = ''X'' \<or> opponent player = ''O''"
    by (simp add: opponent_def)
  have rest: "\<forall>p \<in> set fs. inside (fst p) (snd p) \<and> cell ?b1 (fst p) (snd p) = opponent player"
  proof
    fix p assume p: "p \<in> set fs"
    then have pi: "inside (fst p) (snd p)" and pc: "cell b (fst p) (snd p) = opponent player"
      using Cons.prems(3) by auto
    have "p \<noteq> (fx, fy)" using p Cons.prems(2) f by auto
    then have "\<not> (fst p = fx \<and> snd p = fy)" by (cases p) auto
    with cell_put[OF Cons.prems(1) ins pi, of player] pc pi
    show "inside (fst p) (snd p) \<and> cell ?b1 (fst p) (snd p) = opponent player" by simp
  qed
  from Cons.IH[OF wf1 _ rest] Cons.prems(2) obtain b' where
    b': "apply_flips ?b1 player fs = Inr b'" "wf_board b'"
      "\<forall>x y. inside x y \<longrightarrow> cell b' x y = (if (x, y) \<in> set fs then player else cell ?b1 x y)"
      "side_count player b' = side_count player ?b1 + int (length fs)"
      "side_count (opponent player) b' = side_count (opponent player) ?b1 - int (length fs)"
    by auto
  have c1: "side_count player ?b1 = side_count player b + 1"
    using side_count_put_player[OF Cons.prems(1) ins assms(4) assms(4), of player] old opponent_neq[of player]
    by simp
  have c2: "side_count (opponent player) ?b1 = side_count (opponent player) b - 1"
    using side_count_put_player[OF Cons.prems(1) ins assms(4) opp, of player] old opponent_neq[of player]
    by simp
  have cells: "\<forall>x y. inside x y \<longrightarrow>
      cell b' x y = (if (x, y) \<in> set (f # fs) then player else cell b x y)"
  proof (intro allI impI)
    fix x y assume xy: "inside x y"
    show "cell b' x y = (if (x, y) \<in> set (f # fs) then player else cell b x y)"
      using b'(3) xy cell_put[OF Cons.prems(1) ins xy, of player] f by auto
  qed
  show ?case
    using f sc b'(1,2) cells b'(4,5) c1 c2 by simp
qed

subsection \<open>The effect of a legal move\<close>

lemma legal_moveD:
  assumes "get_valid_moves b player = Some moves" "(r, c) \<in> set moves"
    "get_flips b player r c = Some F"
  shows "inside r c" "cell b r c = ''.''" "F \<noteq> []" "F = computeFlips_spec b player r c"
  using assms valid_move_iff[OF assms(1), of r c] by (simp_all add: get_flips_spec)

lemma legal_move_effect:
  fixes g :: "'a game_core_scheme"
  assumes wf: "wf_board (board g)" and pl: "player = ''X'' \<or> player = ''O''"
    and vm: "get_valid_moves (board g) player = Some moves" and mv: "(r, c) \<in> set moves"
    and fl: "get_flips (board g) player r c = Some F"
  shows "\<exists>b2. make_move_t2 g player r c = Some (Inr (g\<lparr>board := b2\<rparr>, Some F)) \<and>
           make_move g player r c rnd =
             Some (if 3 \<le> length F
                   then Inr (g\<lparr>board := put b2 (nat (fst (F ! (rnd mod length F))))
                                               (nat (snd (F ! (rnd mod length F)))) (opponent player)\<rparr>,
                             Some F, Some (F ! (rnd mod length F)))
                   else Inr (g\<lparr>board := b2\<rparr>, Some F, None)) \<and>
           wf_board b2 \<and>
           (\<forall>x y. inside x y \<longrightarrow>
              cell b2 x y = (if (x, y) = (r, c) \<or> (x, y) \<in> set F then player else cell (board g) x y)) \<and>
           side_count player b2 = side_count player (board g) + 1 + int (length F) \<and>
           side_count (opponent player) b2 = side_count (opponent player) (board g) - int (length F)"
proof -
  note lm = legal_moveD[OF vm mv fl]
  let ?b = "board g"
  let ?b1 = "put ?b (nat r) (nat c) player"
  have sc: "set_cell ?b r c player = Inr ?b1" by (rule set_cell_inside[OF wf lm(1)])
  have wf1: "wf_board ?b1" by (rule wf_put[OF wf])
  have dist: "distinct F" unfolding lm(4) by (rule distinct_flips)
  have opp: "opponent player = ''X'' \<or> opponent player = ''O''" by (simp add: opponent_def)
  have pne: "player \<noteq> ''.''" "opponent player \<noteq> ''.''" using pl by (auto simp: opponent_def)
  have Fc: "\<forall>p \<in> set F. inside (fst p) (snd p) \<and> cell ?b1 (fst p) (snd p) = opponent player"
  proof
    fix p assume p: "p \<in> set F"
    note fc = flips_cells[OF p[unfolded lm(4)]]
    from fc(3) have "\<not> (fst p = r \<and> snd p = c)" by (cases p) auto
    with cell_put[OF wf lm(1) fc(1), of player] fc(1,2)
    show "inside (fst p) (snd p) \<and> cell ?b1 (fst p) (snd p) = opponent player" by simp
  qed
  from apply_flips_ok[OF wf1 dist Fc pl] obtain b2 where
    b2: "apply_flips ?b1 player F = Inr b2" "wf_board b2"
      "\<forall>x y. inside x y \<longrightarrow> cell b2 x y = (if (x, y) \<in> set F then player else cell ?b1 x y)"
      "side_count player b2 = side_count player ?b1 + int (length F)"
      "side_count (opponent player) b2 = side_count (opponent player) ?b1 - int (length F)"
    by blast
  have c1: "side_count player ?b1 = side_count player ?b + 1"
    using side_count_put_player[OF wf lm(1) pl pl, of player] lm(2) pne by simp
  have c2: "side_count (opponent player) ?b1 = side_count (opponent player) ?b"
    using side_count_put_player[OF wf lm(1) pl opp, of player] lm(2) pne opponent_neq[of player]
    by simp
  have cells: "\<forall>x y. inside x y \<longrightarrow>
      cell b2 x y = (if (x, y) = (r, c) \<or> (x, y) \<in> set F then player else cell ?b x y)"
  proof (intro allI impI)
    fix x y assume xy: "inside x y"
    show "cell b2 x y = (if (x, y) = (r, c) \<or> (x, y) \<in> set F then player else cell ?b x y)"
      using b2(3) xy cell_put[OF wf lm(1) xy, of player] by auto
  qed
  have t2: "make_move_t2 g player r c = Some (Inr (g\<lparr>board := b2\<rparr>, Some F))"
    by (simp add: make_move_t2_def fl lm(3) sc b2(1))
  have mm: "make_move g player r c rnd =
             Some (if 3 \<le> length F
                   then Inr (g\<lparr>board := put b2 (nat (fst (F ! (rnd mod length F))))
                                               (nat (snd (F ! (rnd mod length F)))) (opponent player)\<rparr>,
                             Some F, Some (F ! (rnd mod length F)))
                   else Inr (g\<lparr>board := b2\<rparr>, Some F, None))"
  proof (cases "3 \<le> length F")
    case True
    obtain rx ry where rp: "F ! (rnd mod length F) = (rx, ry)" by (cases "F ! (rnd mod length F)")
    have "(rx, ry) \<in> set F" using lm(3) rp[symmetric] by simp
    then have ins: "inside rx ry" using Fc by fastforce
    have rc: "random_choice rnd F = Inr (rx, ry)" using lm(3) rp by (simp add: random_choice_def)
    have "set_cell b2 rx ry (opponent player) = Inr (put b2 (nat rx) (nat ry) (opponent player))"
      by (rule set_cell_inside[OF b2(2) ins])
    with True rc rp show ?thesis
      by (simp add: make_move_def fl lm(3) sc b2(1))
  next
    case False
    then show ?thesis by (simp add: make_move_def fl lm(3) sc b2(1))
  qed
  from t2 mm b2(2) cells b2(4,5) c1 c2 show ?thesis by auto
qed

text \<open>
  Claim C3. For a legal move of \<open>player\<close> at \<open>(r, c)\<close> with flip list \<open>F\<close>, applying the move
  (\<open>make_move\<close> of \<open>test2.py\<close>: placement and flips, no return) raises the player's
  piece count by \<open>1 + |F|\<close> and lowers the opponent's by \<open>|F|\<close>.
\<close>

theorem apply_move_counts:
  fixes g :: game
  assumes "wf_board (board g)" and "player = ''X'' \<or> player = ''O''"
    and "get_valid_moves (board g) player = Some moves" and "(r, c) \<in> set moves"
    and "get_flips (board g) player r c = Some F"
  shows "\<exists>g'. make_move_t2 g player r c = Some (Inr (g', Some F)) \<and>
           side_count player (board g') = side_count player (board g) + (1 + int (length F)) \<and>
           side_count (opponent player) (board g') =
             side_count (opponent player) (board g) - int (length F)"
proof -
  from legal_move_effect[OF assms, of 0] obtain b2 where
    "make_move_t2 g player r c = Some (Inr (g\<lparr>board := b2\<rparr>, Some F))"
    "side_count player b2 = side_count player (board g) + 1 + int (length F)"
    "side_count (opponent player) b2 = side_count (opponent player) (board g) - int (length F)"
    by blast
  then show ?thesis by simp
qed

lemma example_three_flips_facts:
  "wf_board example_three_flips_board"
  "get_valid_moves example_three_flips_board ''X'' =
     Some [(1, 3), (1, 4), (1, 5), (3, 5), (4, 2), (5, 3), (5, 4)]"
  "get_flips example_three_flips_board ''X'' 1 4 = Some [(2, 4), (3, 4), (2, 3)]"
  "count_pieces example_three_flips_board = (3, 5)"
  by code_simp+

lemma example_game_simps:
  "board (example_game b p) = b" "current_player (example_game b p) = p"
  "extensions (example_game b p) = [''X'' \<mapsto> 3, ''O'' \<mapsto> 3]"
  by (simp_all add: example_game_def)

text \<open>
  X at (1,4) after X (2,4), O (2,3), X (3,2), O (2,5): three flips, counts (3,5) become
  (7,2).
\<close>

theorem apply_move_counts_witness:
  "wf_board example_three_flips_board \<and>
   get_valid_moves example_three_flips_board ''X'' =
     Some [(1, 3), (1, 4), (1, 5), (3, 5), (4, 2), (5, 3), (5, 4)] \<and>
   get_flips example_three_flips_board ''X'' 1 4 = Some [(2, 4), (3, 4), (2, 3)] \<and>
   count_pieces example_three_flips_board = (3, 5) \<and>
   (\<exists>g'. make_move_t2 (example_game example_three_flips_board ''X'') ''X'' 1 4 =
            Some (Inr (g', Some [(2, 4), (3, 4), (2, 3)])) \<and>
         side_count ''X'' (board g') = 7 \<and> side_count ''O'' (board g') = 2)"
proof -
  note f = example_three_flips_facts
  have "\<exists>g'. make_move_t2 (example_game example_three_flips_board ''X'') ''X'' 1 4 =
            Some (Inr (g', Some [(2, 4), (3, 4), (2, 3)])) \<and>
         side_count ''X'' (board g') =
           side_count ''X'' (board (example_game example_three_flips_board ''X'')) + (1 + int (length [(2, 4), (3, 4), (2, 3) :: coord])) \<and>
         side_count (opponent ''X'') (board g') =
           side_count (opponent ''X'') (board (example_game example_three_flips_board ''X'')) - int (length [(2, 4), (3, 4), (2, 3) :: coord])"
    by (rule apply_move_counts[where moves = "[(1, 3), (1, 4), (1, 5), (3, 5), (4, 2), (5, 3), (5, 4)]"])
       (simp_all add: example_game_simps f)
  then show ?thesis
    using f by (simp add: example_game_simps side_count_def opponent_def)
qed

text \<open>
  Claim C9. A legal move at \<open>(r, c)\<close> with flip list \<open>F\<close> leaves every cell of the board
  outside \<open>{(r, c)} \<union> F\<close> as it was, in \<open>test2.py\<close> and in \<open>test.py\<close>, where the cell given
  back is a member of \<open>F\<close>; \<open>current_player\<close> and \<open>extensions\<close> are not changed.
\<close>

theorem make_move_frame:
  fixes g :: game
  assumes "wf_board (board g)" and "player = ''X'' \<or> player = ''O''"
    and "get_valid_moves (board g) player = Some moves" and "(r, c) \<in> set moves"
    and "get_flips (board g) player r c = Some F"
  shows "(\<exists>g'. make_move_t2 g player r c = Some (Inr (g', Some F)) \<and>
            wf_board (board g') \<and>
            (\<forall>x y. inside x y \<and> (x, y) \<noteq> (r, c) \<and> (x, y) \<notin> set F \<longrightarrow>
                   cell (board g') x y = cell (board g) x y) \<and>
            current_player g' = current_player g \<and> extensions g' = extensions g) \<and>
         (\<exists>g' return_pos. make_move g player r c rnd = Some (Inr (g', Some F, return_pos)) \<and>
            wf_board (board g') \<and>
            (\<forall>p. return_pos = Some p \<longrightarrow> p \<in> set F) \<and>
            (\<forall>x y. inside x y \<and> (x, y) \<noteq> (r, c) \<and> (x, y) \<notin> set F \<longrightarrow>
                   cell (board g') x y = cell (board g) x y) \<and>
            current_player g' = current_player g \<and> extensions g' = extensions g)"
proof -
  note lm = legal_moveD[OF assms(3,4,5)]
  from legal_move_effect[OF assms, of rnd] obtain b2 where
    t2: "make_move_t2 g player r c = Some (Inr (g\<lparr>board := b2\<rparr>, Some F))"
    and mm: "make_move g player r c rnd =
             Some (if 3 \<le> length F
                   then Inr (g\<lparr>board := put b2 (nat (fst (F ! (rnd mod length F))))
                                               (nat (snd (F ! (rnd mod length F)))) (opponent player)\<rparr>,
                             Some F, Some (F ! (rnd mod length F)))
                   else Inr (g\<lparr>board := b2\<rparr>, Some F, None))"
    and wf2: "wf_board b2"
    and cells: "\<forall>x y. inside x y \<longrightarrow>
              cell b2 x y = (if (x, y) = (r, c) \<or> (x, y) \<in> set F then player else cell (board g) x y)"
    by blast
  have A: "\<exists>g'. make_move_t2 g player r c = Some (Inr (g', Some F)) \<and>
            wf_board (board g') \<and>
            (\<forall>x y. inside x y \<and> (x, y) \<noteq> (r, c) \<and> (x, y) \<notin> set F \<longrightarrow>
                   cell (board g') x y = cell (board g) x y) \<and>
            current_player g' = current_player g \<and> extensions g' = extensions g"
    using t2 wf2 cells by simp
  have B: "\<exists>g' return_pos. make_move g player r c rnd = Some (Inr (g', Some F, return_pos)) \<and>
            wf_board (board g') \<and>
            (\<forall>p. return_pos = Some p \<longrightarrow> p \<in> set F) \<and>
            (\<forall>x y. inside x y \<and> (x, y) \<noteq> (r, c) \<and> (x, y) \<notin> set F \<longrightarrow>
                   cell (board g') x y = cell (board g) x y) \<and>
            current_player g' = current_player g \<and> extensions g' = extensions g"
  proof (cases "3 \<le> length F")
    case False
    with mm wf2 cells show ?thesis by simp
  next
    case True
    let ?rp = "F ! (rnd mod length F)"
    have rpF: "?rp \<in> set F" using lm(3) by simp
    have ins: "inside (fst ?rp) (snd ?rp)"
      using flips_cells(1)[of ?rp "board g" player r c] rpF lm(4) by simp
    let ?b3 = "put b2 (nat (fst ?rp)) (nat (snd ?rp)) (opponent player)"
    have "\<forall>x y. inside x y \<and> (x, y) \<noteq> (r, c) \<and> (x, y) \<notin> set F \<longrightarrow>
                   cell ?b3 x y = cell (board g) x y"
    proof (intro allI impI)
      fix x y assume a: "inside x y \<and> (x, y) \<noteq> (r, c) \<and> (x, y) \<notin> set F"
      then have xy: "inside x y" and ne: "(x, y) \<noteq> (r, c)" and nf: "(x, y) \<notin> set F"
        by simp_all
      from nf rpF have "(x, y) \<noteq> ?rp" by auto
      then have "\<not> (x = fst ?rp \<and> y = snd ?rp)" by (cases ?rp) auto
      with cell_put[OF wf2 ins xy, of "opponent player"]
      have "cell ?b3 x y = cell b2 x y" by simp
      also from cells xy have "\<dots> = (if (x, y) = (r, c) \<or> (x, y) \<in> set F then player else cell (board g) x y)"
        by blast
      also from ne nf have "\<dots> = cell (board g) x y" by auto
      finally show "cell ?b3 x y = cell (board g) x y" .
    qed
    with mm True rpF wf_put[OF wf2] show ?thesis by auto
  qed
  from A B show ?thesis by blast
qed

text \<open>
  The same move with the draw 5: (2,3) is given back, the cells (4,3) and (0,0) keep
  their contents.
\<close>

theorem make_move_frame_witness:
  "wf_board example_three_flips_board \<and>
   get_valid_moves example_three_flips_board ''X'' =
     Some [(1, 3), (1, 4), (1, 5), (3, 5), (4, 2), (5, 3), (5, 4)] \<and>
   get_flips example_three_flips_board ''X'' 1 4 = Some [(2, 4), (3, 4), (2, 3)] \<and>
   (\<exists>g' return_pos.
      make_move (example_game example_three_flips_board ''X'') ''X'' 1 4 5 =
        Some (Inr (g', Some [(2, 4), (3, 4), (2, 3)], return_pos)) \<and>
      return_pos = Some (2, 3) \<and>
      cell (board g') 4 3 = ''O'' \<and> cell (board g') 0 0 = ''.'' \<and>
      current_player g' = ''X'' \<and> extensions g' ''O'' = Some 3)"
proof -
  note f = example_three_flips_facts
  let ?g = "example_game example_three_flips_board ''X''"
  have rp: "map_option (map_sum id (\<lambda>(g, fl, rp). rp)) (make_move ?g ''X'' 1 4 5) = Some (Inr (Some (2, 3)))"
    by code_simp
  have c: "cell example_three_flips_board 4 3 = ''O''" "cell example_three_flips_board 0 0 = ''.''"
    "inside 4 3" "inside 0 0"
    by code_simp+
  from make_move_frame[of ?g "''X''" "[(1, 3), (1, 4), (1, 5), (3, 5), (4, 2), (5, 3), (5, 4)]" 1 4
      "[(2, 4), (3, 4), (2, 3)]" 5]
  obtain g' return_pos where
    m: "make_move ?g ''X'' 1 4 5 = Some (Inr (g', Some [(2, 4), (3, 4), (2, 3)], return_pos))"
    and fr: "\<forall>x y. inside x y \<and> (x, y) \<noteq> (1, 4) \<and> (x, y) \<notin> set [(2, 4), (3, 4), (2, 3)] \<longrightarrow>
                   cell (board g') x y = cell (board ?g) x y"
    and cp: "current_player g' = current_player ?g" "extensions g' = extensions ?g"
    by (auto simp: example_game_simps f)
  from rp m have r: "return_pos = Some (2, 3)" by simp
  from fr c have "cell (board g') 4 3 = ''O''" "cell (board g') 0 0 = ''.''"
    by (simp_all add: example_game_simps)
  with m r cp f show ?thesis by (simp add: example_game_simps)
qed

section \<open>Turns, clock and extensions\<close>

subsection \<open>The pass handling returns\<close>

lemma get_valid_moves_total: "\<exists>moves. get_valid_moves b p = Some moves"
  by (simp add: get_valid_moves_filter)

lemma game_over_total: "\<exists>v. game_over b = Some v"
  by (auto simp: game_over_def Let_def get_valid_moves_filter split: prod.splits)

lemma tick_running:
  "time_left s \<noteq> 0 \<Longrightarrow>
   tick s = Some (Inr (s\<lparr>timer_label := Some (time_left s), time_left := time_left s - 1,
                          timer_id := True\<rparr>))"
  by (simp add: tick.simps Let_def)

lemma start_turn_eq:
  "start_turn s = Some (Inr (s\<lparr>time_left := 59, timer_label := Some 60, timer_id := True\<rparr>))"
  by (simp add: start_turn.simps tick.simps Let_def)

lemma switch_player_cases:
  assumes "get_valid_moves (board (game s)) (opponent (current_player (game s))) = Some m1"
    and "get_valid_moves (board (game s)) (opponent (opponent (current_player (game s)))) = Some m2"
  shows "switch_player s =
     (if m1 \<noteq> [] then start_turn (set_player (opponent (current_player (game s))) s)
      else if m2 = [] then
        Some (Inr (finish_game (set_player (opponent (opponent (current_player (game s))))
                      (log_move PASS (set_player (opponent (current_player (game s))) s)))))
      else start_turn (set_player (opponent (opponent (current_player (game s))))
                      (log_move PASS (set_player (opponent (current_player (game s))) s))))"
  using assms by (simp add: switch_player.simps Let_def set_player_def log_move_def)

lemma opponent_player: "opponent p = ''X'' \<or> opponent p = ''O''"
  by (simp add: opponent_def)

lemma set_player_self:
  "set_player (current_player (game s)) s = s"
  by (simp add: set_player_def)

lemma set_player_twice: "set_player p (set_player q s) = set_player p s"
  by (simp add: set_player_def)

lemma set_player_log: "set_player p (log_move t s) = log_move t (set_player p s)"
  by (simp add: set_player_def log_move_def)

lemma game_set_player: "game (set_player p s) = (game s)\<lparr>current_player := p\<rparr>"
  by (simp add: set_player_def)

lemma game_log_move: "game (log_move t s) = game s"
  by (simp add: log_move_def)

lemma game_finish_game: "game (finish_game s) = game s"
  by (simp add: finish_game_def stop_timer_def Let_def split: prod.splits)

lemma game_stop_timer: "game (stop_timer s) = game s"
  by (simp add: stop_timer_def)

lemma finish_game_fields:
  "outcome (finish_game s) \<noteq> None" "handler (finish_game s) = Unbound"
  "\<not> timer_id (finish_game s)" "time_left (finish_game s) = time_left s"
  "log (finish_game s) = log s" "timer_label (finish_game s) = timer_label s"
  by (simp_all add: finish_game_def stop_timer_def Let_def split: prod.splits)

lemma switch_player_result:
  assumes p: "current_player (game s) = ''X'' \<or> current_player (game s) = ''O''"
  shows "\<exists>m1 m2.
     get_valid_moves (board (game s)) (opponent (current_player (game s))) = Some m1 \<and>
     get_valid_moves (board (game s)) (current_player (game s)) = Some m2 \<and>
     switch_player s =
       (if m1 \<noteq> [] then start_turn (set_player (opponent (current_player (game s))) s)
        else if m2 = [] then Some (Inr (finish_game (log_move PASS s)))
        else start_turn (log_move PASS s))"
proof -
  obtain m1 where m1: "get_valid_moves (board (game s)) (opponent (current_player (game s))) = Some m1"
    using get_valid_moves_total by blast
  obtain m2 where m2: "get_valid_moves (board (game s)) (current_player (game s)) = Some m2"
    using get_valid_moves_total by blast
  have oo: "opponent (opponent (current_player (game s))) = current_player (game s)"
    by (rule opponent_cases[OF p])
  have m2': "get_valid_moves (board (game s)) (opponent (opponent (current_player (game s)))) = Some m2"
    unfolding oo by (rule m2)
  have eq: "set_player (opponent (opponent (current_player (game s))))
          (log_move PASS (set_player (opponent (current_player (game s))) s)) = log_move PASS s"
    unfolding oo set_player_log set_player_twice set_player_self ..
  have "switch_player s =
       (if m1 \<noteq> [] then start_turn (set_player (opponent (current_player (game s))) s)
        else if m2 = [] then Some (Inr (finish_game (log_move PASS s)))
        else start_turn (log_move PASS s))"
    using switch_player_cases[OF m1 m2'] unfolding eq .
  with m1 m2 show ?thesis by blast
qed

subsection \<open>The clock invariant\<close>

lemma clock_inv_start:
  assumes "clock_inv s"
  shows "\<exists>s'. start_turn s = Some (Inr s') \<and> clock_inv s' \<and> game s' = game s \<and> outcome s' = outcome s"
  using assms by (simp add: start_turn_eq clock_inv_def)

lemma clock_inv_set_player:
  "clock_inv s \<Longrightarrow> p = ''X'' \<or> p = ''O'' \<Longrightarrow> clock_inv (set_player p s)"
  by (simp add: clock_inv_def set_player_def)

lemma clock_inv_log_move: "clock_inv s \<Longrightarrow> clock_inv (log_move t s)"
  by (simp add: clock_inv_def log_move_def)

lemma clock_inv_stop_timer: "clock_inv s \<Longrightarrow> clock_inv (stop_timer s)"
  by (simp add: clock_inv_def stop_timer_def)

lemma clock_inv_finish_game: "clock_inv s \<Longrightarrow> clock_inv (finish_game s)"
  by (simp add: clock_inv_def game_finish_game finish_game_fields)

lemma clock_inv_switch_player:
  assumes "clock_inv s"
  shows "\<exists>s'. switch_player s = Some (Inr s') \<and> clock_inv s'"
proof -
  from assms have p: "current_player (game s) = ''X'' \<or> current_player (game s) = ''O''"
    by (simp add: clock_inv_def)
  from switch_player_result[OF p] obtain m1 m2 :: "coord list" where
    sw: "switch_player s =
       (if m1 \<noteq> [] then start_turn (set_player (opponent (current_player (game s))) s)
        else if m2 = [] then Some (Inr (finish_game (log_move PASS s)))
        else start_turn (log_move PASS s))" by blast
  have a: "clock_inv (set_player (opponent (current_player (game s))) s)"
    by (rule clock_inv_set_player[OF assms opponent_player])
  have b: "clock_inv (log_move PASS s)" by (rule clock_inv_log_move[OF assms])
  show ?thesis
    unfolding sw using clock_inv_start[OF a] clock_inv_start[OF b] clock_inv_finish_game[OF b]
    by auto
qed

lemma clock_inv_end_of_move:
  assumes "clock_inv s"
  shows "\<exists>s'. end_of_move s = Some (Inr s') \<and> clock_inv s'"
proof -
  obtain v where v: "game_over (board (game s)) = Some v" using game_over_total by blast
  show ?thesis
    unfolding end_of_move_def v
    using clock_inv_switch_player[OF assms] clock_inv_finish_game[OF assms] by auto
qed

lemma clock_inv_handle_timeout:
  assumes "clock_inv s"
  shows "\<exists>s'. handle_timeout s = Some (Inr s') \<and> clock_inv s'"
proof -
  from assms obtain n where n: "extensions (game s) (current_player (game s)) = Some n" "0 \<le> n"
    by (auto simp: clock_inv_def)
  show ?thesis
  proof (cases "n > 0")
    case True
    let ?s1 = "s\<lparr>game := (game s)\<lparr>extensions := (extensions (game s))(current_player (game s) \<mapsto> n - 1)\<rparr>,
                    time_left := 60\<rparr>"
    have "clock_inv ?s1" using assms True by (auto simp: clock_inv_def)
    moreover have "handle_timeout s = tick ?s1"
      using n True by (simp add: handle_timeout.simps Let_def)
    moreover have "tick ?s1 = Some (Inr (?s1\<lparr>timer_label := Some 60, time_left := 59, timer_id := True\<rparr>))"
      using tick_running[of ?s1] by simp
    ultimately show ?thesis by (auto simp: clock_inv_def)
  next
    case False
    then have "handle_timeout s = switch_player (log_move PASS s)"
      using n by (simp add: handle_timeout.simps Let_def)
    with clock_inv_switch_player[OF clock_inv_log_move[OF assms]] show ?thesis by simp
  qed
qed

lemma clock_inv_tick:
  assumes "clock_inv s"
  shows "\<exists>s'. tick s = Some (Inr s') \<and> clock_inv s'"
proof (cases "time_left s = 0")
  case True
  let ?s1 = "s\<lparr>timer_label := Some (time_left s)\<rparr>"
  have "clock_inv ?s1" using assms by (simp add: clock_inv_def)
  from clock_inv_handle_timeout[OF this] True show ?thesis
    by (simp add: tick.simps Let_def)
next
  case False
  with assms show ?thesis by (simp add: tick_running clock_inv_def)
qed

lemma use_extension_result:
  assumes "extensions (game s) (current_player (game s)) = Some n"
  shows "use_extension s =
     Inr (if n = 0 \<or> 120 \<le> time_left s then s
          else s\<lparr>game := (game s)\<lparr>extensions := (extensions (game s))(current_player (game s) \<mapsto> n - 1)\<rparr>,
                 time_left := min 120 (time_left s + 60)\<rparr>)"
  using assms by (auto simp: use_extension_def Let_def min_def)

lemma clock_inv_use_extension:
  assumes "clock_inv s"
  shows "\<exists>s'. use_extension s = Inr s' \<and> clock_inv s'"
proof -
  from assms obtain n where n: "extensions (game s) (current_player (game s)) = Some n" "0 \<le> n"
    by (auto simp: clock_inv_def)
  show ?thesis
    unfolding use_extension_result[OF n(1)] using assms n(2)
    by (auto simp: clock_inv_def)
qed

lemma clock_inv_handle_click:
  assumes "clock_inv s"
  shows "\<exists>s'. handle_click s ex ey rnd = Some (Inr s') \<and> clock_inv s'"
proof -
  let ?col = "ex div CELL_SIZE" and ?row = "ey div CELL_SIZE"
  let ?p = "current_player (game s)"
  obtain moves where vm: "get_valid_moves (board (game s)) ?p = Some moves"
    using get_valid_moves_total by blast
  show ?thesis
  proof (cases "0 \<le> ?row \<and> ?row < BOARD_SIZE \<and> 0 \<le> ?col \<and> ?col < BOARD_SIZE \<and> (?row, ?col) \<in> set moves")
    case False
    with assms vm show ?thesis by (auto simp: handle_click_def Let_def)
  next
    case True
    let ?s1 = "stop_timer s"
    have g1: "game ?s1 = game s" by (rule game_stop_timer)
    have inv1: "clock_inv ?s1" by (rule clock_inv_stop_timer[OF assms])
    from assms have wf: "wf_board (board (game s))" and pl: "?p = ''X'' \<or> ?p = ''O''"
      by (simp_all add: clock_inv_def)
    from True have mv: "(?row, ?col) \<in> set moves" by simp
    obtain F where fl: "get_flips (board (game s)) ?p ?row ?col = Some F"
      by (simp add: get_flips_spec)
    from legal_move_effect[OF wf pl vm mv fl, of rnd] obtain b2 where
      mm: "make_move (game s) ?p ?row ?col rnd =
             Some (if 3 \<le> length F
                   then Inr ((game s)\<lparr>board := put b2 (nat (fst (F ! (rnd mod length F))))
                                               (nat (snd (F ! (rnd mod length F)))) (opponent ?p)\<rparr>,
                             Some F, Some (F ! (rnd mod length F)))
                   else Inr ((game s)\<lparr>board := b2\<rparr>, Some F, None))"
      and wf2: "wf_board b2" by blast
    define g' where "g' = (if 3 \<le> length F
        then (game s)\<lparr>board := put b2 (nat (fst (F ! (rnd mod length F))))
                                               (nat (snd (F ! (rnd mod length F)))) (opponent ?p)\<rparr>
        else (game s)\<lparr>board := b2\<rparr>)"
    define rp where "rp = (if 3 \<le> length F then Some (F ! (rnd mod length F)) else None)"
    have mm': "make_move (game s) ?p ?row ?col rnd = Some (Inr (g', Some F, rp))"
      unfolding mm g'_def rp_def by simp
    have g'wf: "wf_board (board g')" "current_player g' = ?p" "extensions g' = extensions (game s)"
      unfolding g'_def using wf2 wf_put[OF wf2] by simp_all
    let ?s3 = "log_move (MoveTxt (current_player g') ?row ?col rp) (?s1\<lparr>game := g'\<rparr>)"
    have "clock_inv (?s1\<lparr>game := g'\<rparr>)"
      using inv1 g'wf g1 by (simp add: clock_inv_def)
    then have inv3: "clock_inv ?s3" by (rule clock_inv_log_move)
    have "handle_click s ex ey rnd = end_of_move ?s3"
      using True vm mm' g1 by (simp add: handle_click_def Let_def)
    with clock_inv_end_of_move[OF inv3] show ?thesis by simp
  qed
qed

lemma clock_inv_fire:
  assumes "clock_inv s"
  shows "\<exists>s'. fire s ev = Some (Inr s') \<and> clock_inv s'"
proof (cases ev)
  case (Click ex ey rnd)
  with clock_inv_handle_click[OF assms, of ex ey rnd] assms show ?thesis
    by (auto simp: fire_def)
next
  case TimerFires
  have "clock_inv (s\<lparr>timer_id := False\<rparr>)" using assms by (simp add: clock_inv_def)
  from clock_inv_tick[OF this] TimerFires assms show ?thesis by (auto simp: fire_def)
next
  case ExtensionButton
  with clock_inv_use_extension[OF assms] show ?thesis by (auto simp: fire_def)
qed

lemma clock_inv_run_events:
  assumes "clock_inv s"
  shows "\<exists>s'. run_events (Some (Inr s)) evs = Some (Inr s') \<and> clock_inv s'"
  using assms
proof (induction evs arbitrary: s)
  case Nil
  then show ?case by simp
next
  case (Cons ev evs)
  from clock_inv_fire[OF Cons.prems, of ev] obtain s1 where
    "fire s ev = Some (Inr s1)" "clock_inv s1" by blast
  with Cons.IH[of s1] show ?case by simp
qed

lemma wf_init_board: "wf_board (init_board empty_board)"
  by code_simp

lemma init_gui_eq:
  "init_gui = Some (Inr \<lparr>game = new_game, time_left = 59, timer_id = True, timer_label = Some 60,
                 log = [], outcome = None, handler = HandleClick\<rparr>)"
  by (simp add: init_gui_def start_turn_eq)

lemma clock_inv_init:
  "\<exists>s0. init_gui = Some (Inr s0) \<and> clock_inv s0 \<and>
        extensions (game s0) ''X'' = Some 3 \<and> extensions (game s0) ''O'' = Some 3"
  by (simp add: init_gui_eq clock_inv_def new_game_def wf_init_board)

text \<open>
  Claim C4. \<open>switch_player\<close> returns. When the side switched to has no legal move it
  logs PASS and sets \<open>current_player\<close> back to the original side; if that side has a legal
  move its turn starts (clock at 60, first tick done); if it has none the result is
  \<open>finish_game\<close> at once, with no turn started in between (the clock is not reset and
  no timer is scheduled). \<open>switch_player\<close> ends a game that was not over only when
  neither side has a legal move.
\<close>

theorem switch_player_forced_pass:
  assumes "current_player (game s) = ''X'' \<or> current_player (game s) = ''O''"
  shows "\<exists>m1 m2 s'.
     get_valid_moves (board (game s)) (opponent (current_player (game s))) = Some m1 \<and>
     get_valid_moves (board (game s)) (current_player (game s)) = Some m2 \<and>
     switch_player s = Some (Inr s') \<and>
     (m1 \<noteq> [] \<longrightarrow>
        s' = (set_player (opponent (current_player (game s))) s)
               \<lparr>time_left := 59, timer_label := Some 60, timer_id := True\<rparr>) \<and>
     (m1 = [] \<and> m2 \<noteq> [] \<longrightarrow>
        s' = (log_move PASS s)\<lparr>time_left := 59, timer_label := Some 60, timer_id := True\<rparr> \<and>
        current_player (game s') = current_player (game s) \<and> log s' = log s @ [PASS] \<and>
        outcome s' = outcome s) \<and>
     (m1 = [] \<and> m2 = [] \<longrightarrow>
        s' = finish_game (log_move PASS s) \<and>
        current_player (game s') = current_player (game s) \<and> log s' = log s @ [PASS] \<and>
        outcome s' \<noteq> None \<and> handler s' = Unbound \<and> \<not> timer_id s' \<and>
        time_left s' = time_left s \<and> timer_label s' = timer_label s) \<and>
     (outcome s = None \<and> outcome s' \<noteq> None \<longrightarrow> m1 = [] \<and> m2 = [])"
proof -
  from switch_player_result[OF assms] obtain m1 m2 :: "coord list" where
    m: "get_valid_moves (board (game s)) (opponent (current_player (game s))) = Some m1"
       "get_valid_moves (board (game s)) (current_player (game s)) = Some m2"
    and sw: "switch_player s =
       (if m1 \<noteq> [] then start_turn (set_player (opponent (current_player (game s))) s)
        else if m2 = [] then Some (Inr (finish_game (log_move PASS s)))
        else start_turn (log_move PASS s))" by blast
  consider (a) "m1 \<noteq> []" | (b) "m1 = []" "m2 \<noteq> []" | (c) "m1 = []" "m2 = []" by blast
  then show ?thesis
  proof cases
    case a
    with m sw show ?thesis
      by (auto simp: start_turn_eq set_player_def)
  next
    case b
    with m sw show ?thesis
      by (auto simp: start_turn_eq log_move_def)
  next
    case c
    let ?t = "log_move PASS s"
    note ff = finish_game_fields[of ?t] game_finish_game[of ?t]
    have "current_player (game (finish_game ?t)) = current_player (game s)"
      "log (finish_game ?t) = log s @ [PASS]" "time_left (finish_game ?t) = time_left s"
      "timer_label (finish_game ?t) = timer_label s"
      by (simp_all add: finish_game_fields game_finish_game log_move_def)
    with c m sw ff(1-3) show ?thesis by auto
  qed
qed

lemma example_pass_facts:
  "get_valid_moves example_pass_board ''O'' = Some []"
  "get_valid_moves example_pass_board ''X'' = Some [(0, 2)]"
  "get_valid_moves example_dead_board ''O'' = Some []"
  "get_valid_moves example_dead_board ''X'' = Some []"
  by code_simp+

lemma example_gui_simps:
  "board (game (example_gui b p n t)) = b" "current_player (game (example_gui b p n t)) = p"
  "extensions (game (example_gui b p n t)) = [''X'' \<mapsto> n, ''O'' \<mapsto> 3]"
  "time_left (example_gui b p n t) = t" "log (example_gui b p n t) = []"
  "outcome (example_gui b p n t) = None" "timer_id (example_gui b p n t) = False"
  "handler (example_gui b p n t) = HandleClick" "timer_label (example_gui b p n t) = None"
  by (simp_all add: example_gui_def)

text \<open>
  A board where O cannot move and X can, and a board where nobody can.
\<close>

theorem switch_player_forced_pass_witness:
  "(\<exists>s'. switch_player (example_gui example_pass_board ''X'' 3 30) = Some (Inr s') \<and>
      current_player (game s') = ''X'' \<and> log s' = [PASS] \<and> outcome s' = None \<and>
      time_left s' = 59) \<and>
   (\<exists>s'. switch_player (example_gui example_dead_board ''X'' 3 30) = Some (Inr s') \<and>
      current_player (game s') = ''X'' \<and> log s' = [PASS] \<and> outcome s' \<noteq> None \<and>
      time_left s' = 30)"
proof -
  note f = example_pass_facts
  have "\<exists>s'. switch_player (example_gui example_pass_board ''X'' 3 30) = Some (Inr s') \<and>
      current_player (game s') = ''X'' \<and> log s' = [PASS] \<and> outcome s' = None \<and>
      time_left s' = 59"
    using switch_player_forced_pass[of "example_gui example_pass_board ''X'' 3 30"] f
    by (auto simp: example_gui_simps opponent_def)
  moreover
  have "\<exists>s'. switch_player (example_gui example_dead_board ''X'' 3 30) = Some (Inr s') \<and>
      current_player (game s') = ''X'' \<and> log s' = [PASS] \<and> outcome s' \<noteq> None \<and>
      time_left s' = 30"
    using switch_player_forced_pass[of "example_gui example_dead_board ''X'' 3 30"] f
    by (auto simp: example_gui_simps opponent_def)
  ultimately show ?thesis by blast
qed

text \<open>
  Claim C5. The window starts with three extensions for each side. After every sequence
  of events (clicks, timer callbacks, presses of the extension button) the run returns a
  state in which both budgets are at least 0 and \<open>time_left\<close> is at most 120. A press of
  the extension button when the budget of the side to move is 0 or \<open>time_left\<close> is 120 or
  more returns the state unchanged; otherwise it lowers that budget by 1 and sets
  \<open>time_left\<close> to \<open>min 120 (time_left + 60)\<close>.
\<close>

theorem extension_budget_and_clock_bounds:
  "(\<exists>s0. init_gui = Some (Inr s0) \<and>
         extensions (game s0) ''X'' = Some 3 \<and> extensions (game s0) ''O'' = Some 3) \<and>
   (\<exists>s nx no. run_events init_gui evs = Some (Inr s) \<and>
         extensions (game s) ''X'' = Some nx \<and> extensions (game s) ''O'' = Some no \<and>
         0 \<le> nx \<and> 0 \<le> no \<and> time_left s \<le> 120) \<and>
   (extensions (game t) (current_player (game t)) = Some n \<longrightarrow>
      use_extension t =
        Inr (if n = 0 \<or> 120 \<le> time_left t then t
             else t\<lparr>game := (game t)\<lparr>extensions :=
                                   (extensions (game t))(current_player (game t) \<mapsto> n - 1)\<rparr>,
                    time_left := min 120 (time_left t + 60)\<rparr>))"
proof -
  from clock_inv_init obtain s0 where s0: "init_gui = Some (Inr s0)" "clock_inv s0"
    "extensions (game s0) ''X'' = Some 3" "extensions (game s0) ''O'' = Some 3" by blast
  from clock_inv_run_events[OF s0(2), of evs] obtain s where
    s: "run_events init_gui evs = Some (Inr s)" "clock_inv s" unfolding s0(1) by blast
  from s(2) have "\<exists>nx no. extensions (game s) ''X'' = Some nx \<and> extensions (game s) ''O'' = Some no \<and>
         0 \<le> nx \<and> 0 \<le> no \<and> time_left s \<le> 120"
    by (auto simp: clock_inv_def)
  with s0 s(1) use_extension_result[of t n] show ?thesis by blast
qed

text \<open>
  After one move, one second and four presses the budget of O is 1 and the clock is at 120.
\<close>

theorem extension_budget_and_clock_bounds_witness:
  "(\<exists>s. run_events init_gui
           [Click 250 130 0, TimerFires, ExtensionButton, ExtensionButton, ExtensionButton,
            ExtensionButton] = Some (Inr s) \<and>
        extensions (game s) ''O'' = Some 1 \<and> time_left s = 120) \<and>
   map_sum id (\<lambda>s. (extensions (game s) ''X'', time_left s))
     (use_extension (example_gui example_pass_board ''X'' 2 100)) = Inr (Some 1, 120) \<and>
   map_sum id (\<lambda>s. (extensions (game s) ''X'', time_left s))
     (use_extension (example_gui example_pass_board ''X'' 0 100)) = Inr (Some 0, 100)"
proof -
  let ?evs = "[Click 250 130 0, TimerFires, ExtensionButton, ExtensionButton, ExtensionButton,
            ExtensionButton]"
  have v: "map_option (map_sum id (\<lambda>s. (extensions (game s) ''O'', time_left s)))
             (run_events init_gui ?evs) = Some (Inr (Some 1, 120))"
    by code_simp
  from extension_budget_and_clock_bounds[of ?evs "example_gui example_pass_board ''X'' 2 100" 2]
  obtain s where s: "run_events init_gui ?evs = Some (Inr s)"
    and u: "use_extension (example_gui example_pass_board ''X'' 2 100) =
        Inr ((example_gui example_pass_board ''X'' 2 100)
              \<lparr>game := (game (example_gui example_pass_board ''X'' 2 100))\<lparr>extensions :=
                    (extensions (game (example_gui example_pass_board ''X'' 2 100)))(''X'' \<mapsto> 1)\<rparr>,
               time_left := 120\<rparr>)"
    by (auto simp: example_gui_simps)
  from extension_budget_and_clock_bounds[of ?evs "example_gui example_pass_board ''X'' 0 100" 0]
  have u0: "use_extension (example_gui example_pass_board ''X'' 0 100) =
        Inr (example_gui example_pass_board ''X'' 0 100)"
    by (simp add: example_gui_simps)
  from v s have "extensions (game s) ''O'' = Some 1 \<and> time_left s = 120" by simp
  with s u u0 show ?thesis by (auto simp: example_gui_simps)
qed

text \<open>
  Claim C6 as stated fails in its second half: a timeout with no extension left does not
  always cost the turn. After eight moves O is to move and X has no legal move; O uses its
  three extensions and lets the clock run to 0. The next timer callback logs PASS twice
  and O is to move again, with a new countdown. The same on \<open>example_pass_board\<close>, where
  X times out with no extension left, has the legal move (0,2), and stays the side to
  move.
\<close>

theorem timeout_keeps_turn_counterexample:
  "view (run_events init_gui
     (pass_position_clicks @ [ExtensionButton, ExtensionButton, TimerFires, ExtensionButton]
        @ replicate 120 TimerFires)) =
     Some (Inr (''O'', Some 0, 0,
        [MoveTxt ''X'' 2 4 None, MoveTxt ''O'' 2 5 None, MoveTxt ''X'' 2 6 None,
         MoveTxt ''O'' 1 6 None, MoveTxt ''X'' 4 2 None, MoveTxt ''O'' 2 7 None,
         MoveTxt ''X'' 0 7 (Some (2, 5)), MoveTxt ''O'' 0 5 None, PASS], None)) \<and>
   view (run_events init_gui
     (pass_position_clicks @ [ExtensionButton, ExtensionButton, TimerFires, ExtensionButton]
        @ replicate 121 TimerFires)) =
     Some (Inr (''O'', Some 0, 59,
        [MoveTxt ''X'' 2 4 None, MoveTxt ''O'' 2 5 None, MoveTxt ''X'' 2 6 None,
         MoveTxt ''O'' 1 6 None, MoveTxt ''X'' 4 2 None, MoveTxt ''O'' 2 7 None,
         MoveTxt ''X'' 0 7 (Some (2, 5)), MoveTxt ''O'' 0 5 None, PASS, PASS, PASS], None)) \<and>
   view (handle_timeout (example_gui example_pass_board ''X'' 0 0)) =
     Some (Inr (''X'', Some 0, 59, [PASS, PASS], None)) \<and>
   get_valid_moves example_pass_board ''X'' = Some [(0, 2)]"
  by code_simp

text \<open>
  Claim C6, amended. A tick at \<open>time_left = 0\<close> calls \<open>handle_timeout\<close>. With a budget
  above 0 it takes one extension from the side to move, sets \<open>time_left\<close> to 60 and ticks
  at once (the label shows 60, the next callback is scheduled), with no input. With no
  budget it logs PASS and runs \<open>switch_player\<close>, the pass handling, without asking whether
  the side has a legal move: the turn is the opponent's when the opponent has a legal
  move; when the opponent has none, PASS is logged again and the side that timed out
  moves again with a new countdown if it has a legal move, and the game is finished if it
  has none.
\<close>

theorem timeout_pass_handling:
  assumes "extensions (game s) (current_player (game s)) = Some n"
    and "current_player (game s) = ''X'' \<or> current_player (game s) = ''O''"
  shows "(time_left s = 0 \<longrightarrow> tick s = handle_timeout (s\<lparr>timer_label := Some 0\<rparr>)) \<and>
     (0 < n \<longrightarrow>
        handle_timeout s =
          tick (s\<lparr>game := (game s)\<lparr>extensions :=
                                (extensions (game s))(current_player (game s) \<mapsto> n - 1)\<rparr>,
                 time_left := 60\<rparr>) \<and>
        handle_timeout s =
          Some (Inr (s\<lparr>game := (game s)\<lparr>extensions :=
                                (extensions (game s))(current_player (game s) \<mapsto> n - 1)\<rparr>,
                       timer_label := Some 60, time_left := 59, timer_id := True\<rparr>))) \<and>
     (\<not> 0 < n \<longrightarrow>
        handle_timeout s = switch_player (log_move PASS s) \<and>
        (\<exists>m1 m2.
           get_valid_moves (board (game s)) (opponent (current_player (game s))) = Some m1 \<and>
           get_valid_moves (board (game s)) (current_player (game s)) = Some m2 \<and>
           handle_timeout s =
             Some (Inr
               (if m1 \<noteq> [] then
                  (set_player (opponent (current_player (game s))) (log_move PASS s))
                     \<lparr>time_left := 59, timer_label := Some 60, timer_id := True\<rparr>
                else if m2 \<noteq> [] then
                  (log_move PASS (log_move PASS s))
                     \<lparr>time_left := 59, timer_label := Some 60, timer_id := True\<rparr>
                else finish_game (log_move PASS (log_move PASS s))))))"
proof -
  let ?s1 = "s\<lparr>game := (game s)\<lparr>extensions :=
                                (extensions (game s))(current_player (game s) \<mapsto> n - 1)\<rparr>,
                 time_left := 60\<rparr>"
  let ?t = "log_move PASS s"
  have A: "time_left s = 0 \<longrightarrow> tick s = handle_timeout (s\<lparr>timer_label := Some 0\<rparr>)"
    by (simp add: tick.simps Let_def)
  have B: "0 < n \<longrightarrow> handle_timeout s = tick ?s1"
    using assms(1) by (simp add: handle_timeout.simps Let_def)
  have B': "tick ?s1 = Some (Inr (?s1\<lparr>timer_label := Some 60, time_left := 59, timer_id := True\<rparr>))"
    using tick_running[of ?s1] by simp
  have C: "\<not> 0 < n \<longrightarrow> handle_timeout s = switch_player ?t"
    using assms(1) by (simp add: handle_timeout.simps Let_def)
  have gt: "game ?t = game s" by (rule game_log_move)
  have pt: "current_player (game ?t) = ''X'' \<or> current_player (game ?t) = ''O''"
    using assms(2) by (simp add: gt)
  from switch_player_result[OF pt] obtain m1 m2 :: "coord list" where
    m: "get_valid_moves (board (game s)) (opponent (current_player (game s))) = Some m1"
       "get_valid_moves (board (game s)) (current_player (game s)) = Some m2"
    and sw: "switch_player ?t =
       (if m1 \<noteq> [] then start_turn (set_player (opponent (current_player (game s))) ?t)
        else if m2 = [] then Some (Inr (finish_game (log_move PASS ?t)))
        else start_turn (log_move PASS ?t))"
    unfolding gt by blast
  have D: "switch_player ?t =
             Some (Inr
               (if m1 \<noteq> [] then
                  (set_player (opponent (current_player (game s))) ?t)
                     \<lparr>time_left := 59, timer_label := Some 60, timer_id := True\<rparr>
                else if m2 \<noteq> [] then
                  (log_move PASS ?t)
                     \<lparr>time_left := 59, timer_label := Some 60, timer_id := True\<rparr>
                else finish_game (log_move PASS ?t)))"
    unfolding sw by (simp add: start_turn_eq)
  from A B B' C D m show ?thesis by auto
qed

text \<open>
  A timeout with two extensions left, and timeouts with none: the opponent can move; only
  the side that timed out can move; nobody can move.
\<close>

theorem timeout_pass_handling_witness:
  "map_option (map_sum id (\<lambda>s. (current_player (game s), extensions (game s) ''X'', time_left s,
       timer_label s, log s, outcome s)))
     (handle_timeout (example_gui example_pass_board ''X'' 2 0))
     = Some (Inr (''X'', Some 1, 59, Some 60, [], None)) \<and>
   map_option (map_sum id (\<lambda>s. (current_player (game s), extensions (game s) ''X'', time_left s,
       timer_label s, log s, outcome s)))
     (handle_timeout (example_gui example_two_moves_board ''X'' 0 0))
     = Some (Inr (''O'', Some 0, 59, Some 60, [PASS], None)) \<and>
   map_option (map_sum id (\<lambda>s. (current_player (game s), extensions (game s) ''X'', time_left s,
       timer_label s, log s, outcome s)))
     (handle_timeout (example_gui example_pass_board ''X'' 0 0))
     = Some (Inr (''X'', Some 0, 59, Some 60, [PASS, PASS], None)) \<and>
   map_option (map_sum id (\<lambda>s. (current_player (game s), extensions (game s) ''X'', time_left s,
       log s, outcome s = None)))
     (handle_timeout (example_gui example_dead_board ''X'' 0 0))
     = Some (Inr (''X'', Some 0, 0, [PASS, PASS], False))"
proof -
  let ?s1 = "example_gui example_pass_board ''X'' 2 0"
  let ?s2 = "example_gui example_two_moves_board ''X'' 0 0"
  let ?s3 = "example_gui example_pass_board ''X'' 0 0"
  let ?s4 = "example_gui example_dead_board ''X'' 0 0"
  have pos: "0 < (2::int)" and npos: "\<not> 0 < (0::int)" by simp_all
  have v2: "get_valid_moves example_two_moves_board ''O'' \<noteq> Some []" by code_simp
  note f = example_pass_facts
  have a: "handle_timeout ?s1 =
     Some (Inr (?s1\<lparr>game := (game ?s1)\<lparr>extensions :=
                                (extensions (game ?s1))(current_player (game ?s1) \<mapsto> 2 - 1)\<rparr>,
                       timer_label := Some 60, time_left := 59, timer_id := True\<rparr>))"
  proof -
    have h: "extensions (game ?s1) (current_player (game ?s1)) = Some 2"
      "current_player (game ?s1) = ''X'' \<or> current_player (game ?s1) = ''O''"
      by (simp_all add: example_gui_simps)
    from timeout_pass_handling[OF h] pos show ?thesis by blast
  qed
  have b: "handle_timeout ?s2 =
     Some (Inr ((set_player (opponent (current_player (game ?s2))) (log_move PASS ?s2))
                     \<lparr>time_left := 59, timer_label := Some 60, timer_id := True\<rparr>))"
    using timeout_pass_handling[of ?s2 0] npos v2
    by (auto simp: example_gui_simps opponent_def)
  have c: "handle_timeout ?s3 =
     Some (Inr ((log_move PASS (log_move PASS ?s3))
                     \<lparr>time_left := 59, timer_label := Some 60, timer_id := True\<rparr>))"
    using timeout_pass_handling[of ?s3 0] npos f
    by (auto simp: example_gui_simps opponent_def)
  have d: "handle_timeout ?s4 = Some (Inr (finish_game (log_move PASS (log_move PASS ?s4))))"
    using timeout_pass_handling[of ?s4 0] npos f
    by (auto simp: example_gui_simps opponent_def)
  show ?thesis unfolding a b c d
    by (simp add: example_gui_simps set_player_def log_move_def opponent_def
        finish_game_fields game_finish_game)
qed

section \<open>The return rule\<close>

lemma more_pending:
  fixes s s' :: "'a gui_t2_scheme"
  shows "gui.more s' = gui.more s \<Longrightarrow> pending_return s' = pending_return s \<and> return_origin s' = return_origin s"
  by (cases s, cases s') simp

lemma more_simps:
  "gui.more (finish_game s) = gui.more s" "gui.more (log_move t s) = gui.more s"
  "gui.more (set_player p s) = gui.more s" "gui.more (stop_timer s) = gui.more s"
  by (simp_all add: finish_game_def log_move_def set_player_def stop_timer_def Let_def split: prod.splits)

lemma handler_simps:
  "handler (log_move t s) = handler s"
  "handler (set_player p s) = handler s" "handler (stop_timer s) = handler s"
  by (simp_all add: log_move_def set_player_def stop_timer_def)

lemma switch_player_frame:
  "\<exists>s'. switch_player s = Some (Inr s') \<and> board (game s') = board (game s) \<and>
        gui.more s' = gui.more s \<and> (handler s' = handler s \<or> handler s' = Unbound)"
proof -
  obtain m1 where m1: "get_valid_moves (board (game s)) (opponent (current_player (game s))) = Some m1"
    using get_valid_moves_total by blast
  obtain m2 where m2: "get_valid_moves (board (game s)) (opponent (opponent (current_player (game s)))) = Some m2"
    using get_valid_moves_total by blast
  show ?thesis
    unfolding switch_player_cases[OF m1 m2]
    by (simp add: start_turn_eq more_simps handler_simps game_set_player game_log_move
        game_finish_game finish_game_fields)
qed

lemma end_of_move_frame:
  "\<exists>s'. end_of_move s = Some (Inr s') \<and> board (game s') = board (game s) \<and>
        gui.more s' = gui.more s \<and> (handler s' = handler s \<or> handler s' = Unbound)"
proof -
  obtain v where v: "game_over (board (game s)) = Some v" using game_over_total by blast
  show ?thesis
    unfolding end_of_move_def v using switch_player_frame[of s]
    by (auto simp: more_simps game_finish_game finish_game_fields)
qed

lemma filter_single:
  "distinct xs \<Longrightarrow> x \<in> set xs \<Longrightarrow> (\<And>y. y \<in> set xs \<Longrightarrow> P y \<longleftrightarrow> y = x) \<Longrightarrow> filter P xs = [x]"
proof (induction xs)
  case Nil
  then show ?case by simp
next
  case (Cons a xs)
  show ?case
  proof (cases "a = x")
    case True
    with Cons.prems have "\<And>y. y \<in> set xs \<Longrightarrow> \<not> P y" by auto
    then have "filter P xs = []" by (simp add: filter_empty_conv)
    with True Cons.prems(3)[of a] show ?thesis by simp
  next
    case False
    with Cons.prems have "filter P xs = [x]" by (intro Cons.IH) auto
    with False Cons.prems(3)[of a] show ?thesis by simp
  qed
qed

lemma reverted_none:
  assumes "\<forall>p \<in> set F. cell b' (fst p) (snd p) = player"
  shows "reverted b' player F = []"
  unfolding reverted_def filter_empty_conv
proof
  fix p assume p: "p \<in> set F"
  obtain x y where xy: "p = (x, y)" by (cases p)
  from assms p xy have "cell b' x y = player" by force
  with opponent_neq[of player] xy
  show "\<not> (case p of (x, y) \<Rightarrow> cell b' x y = opponent player)" by simp
qed

lemma reverted_one:
  assumes wf: "wf_board b2" and d: "distinct F" and ins: "\<forall>p \<in> set F. inside (fst p) (snd p)"
    and cells: "\<forall>p \<in> set F. cell b2 (fst p) (snd p) = player"
    and rp: "(rx, ry) \<in> set F"
  shows "reverted (put b2 (nat rx) (nat ry) (opponent player)) player F = [(rx, ry)]"
  unfolding reverted_def
proof (rule filter_single[OF d rp])
  fix y assume y: "y \<in> set F"
  obtain x1 y1 where yy: "y = (x1, y1)" by (cases y)
  from ins rp have ri: "inside rx ry" by fastforce
  from ins y yy have yi: "inside x1 y1" by fastforce
  from cells y yy have c: "cell b2 x1 y1 = player" by fastforce
  show "(case y of (x, y) \<Rightarrow> cell (put b2 (nat rx) (nat ry) (opponent player)) x y = opponent player)
         \<longleftrightarrow> y = (rx, ry)"
    unfolding yy using cell_put[OF wf ri yi, of "opponent player"] c opponent_neq[of player]
    by auto
qed

lemma legal_move_cells:
  fixes g :: "'a game_core_scheme"
  assumes wf: "wf_board (board g)" and pl: "player = ''X'' \<or> player = ''O''"
    and vm: "get_valid_moves (board g) player = Some moves" and mv: "(r, c) \<in> set moves"
    and fl: "get_flips (board g) player r c = Some F"
  shows "\<exists>b2. make_move_t2 g player r c = Some (Inr (g\<lparr>board := b2\<rparr>, Some F)) \<and>
           make_move g player r c rnd =
             Some (if 3 \<le> length F
                   then Inr (g\<lparr>board := put b2 (nat (fst (F ! (rnd mod length F))))
                                               (nat (snd (F ! (rnd mod length F)))) (opponent player)\<rparr>,
                             Some F, Some (F ! (rnd mod length F)))
                   else Inr (g\<lparr>board := b2\<rparr>, Some F, None)) \<and>
           wf_board b2 \<and> distinct F \<and> F \<noteq> [] \<and> inside r c \<and>
           (\<forall>p \<in> set F. inside (fst p) (snd p)) \<and>
           (\<forall>p \<in> set F. cell b2 (fst p) (snd p) = player)"
proof -
  note lm = legal_moveD[OF vm mv fl]
  from legal_move_effect[OF assms, of rnd] obtain b2 where
    b2: "make_move_t2 g player r c = Some (Inr (g\<lparr>board := b2\<rparr>, Some F))"
      "make_move g player r c rnd =
             Some (if 3 \<le> length F
                   then Inr (g\<lparr>board := put b2 (nat (fst (F ! (rnd mod length F))))
                                               (nat (snd (F ! (rnd mod length F)))) (opponent player)\<rparr>,
                             Some F, Some (F ! (rnd mod length F)))
                   else Inr (g\<lparr>board := b2\<rparr>, Some F, None))"
      "wf_board b2"
      "\<forall>x y. inside x y \<longrightarrow>
              cell b2 x y = (if (x, y) = (r, c) \<or> (x, y) \<in> set F then player else cell (board g) x y)"
    by blast
  have ins: "\<forall>p \<in> set F. inside (fst p) (snd p)"
    using flips_cells(1)[of _ "board g" player r c] lm(4) by simp
  have "\<forall>p \<in> set F. cell b2 (fst p) (snd p) = player"
  proof
    fix p assume p: "p \<in> set F"
    with ins have "inside (fst p) (snd p)" by blast
    with b2(4) p show "cell b2 (fst p) (snd p) = player" by simp
  qed
  moreover have "distinct F" unfolding lm(4) by (rule distinct_flips)
  ultimately show ?thesis using b2(1-3) ins lm(1,3) by blast
qed

subsection \<open>\<open>test3.py\<close>: the pass handling returns\<close>

lemma switch_player_t3_frame:
  "\<exists>s'. switch_player_t3 s = Some s' \<and> board (game_t3 s') = board (game_t3 s) \<and>
        pending_return_t3 s' = pending_return_t3 s"
proof -
  obtain m1 where m1: "get_valid_moves (board (game_t3 s)) (opponent (current_player (game_t3 s))) = Some m1"
    using get_valid_moves_total by blast
  obtain m2 where m2: "get_valid_moves (board (game_t3 s))
      (opponent (opponent (current_player (game_t3 s)))) = Some m2"
    using get_valid_moves_total by blast
  show ?thesis
    using m1 m2
    by (simp add: switch_player_t3_def Let_def set_player_t3_def log_move_t3_def start_turn_t3_def
        finish_game_t3_def split: prod.splits)
qed

lemma end_of_move_t3_frame:
  "\<exists>s'. end_of_move_t3 s = Some s' \<and> board (game_t3 s') = board (game_t3 s) \<and>
        pending_return_t3 s' = pending_return_t3 s"
proof -
  obtain v where v: "game_over (board (game_t3 s)) = Some v" using game_over_total by blast
  show ?thesis
    unfolding end_of_move_t3_def v using switch_player_t3_frame[of s]
    by (auto simp: finish_game_t3_def split: prod.splits)
qed

subsection \<open>\<open>test2.py\<close>: the click and the return click\<close>

lemma handle_click_t2_legal:
  fixes s :: "'a gui_t2_scheme"
  assumes wf: "wf_board (board (game s))"
    and pl: "current_player (game s) = ''X'' \<or> current_player (game s) = ''O''"
    and vm: "get_valid_moves (board (game s)) (current_player (game s)) = Some moves"
    and mv: "(ey div CELL_SIZE, ex div CELL_SIZE) \<in> set moves"
    and fl: "get_flips (board (game s)) (current_player (game s)) (ey div CELL_SIZE) (ex div CELL_SIZE) = Some F"
    and np: "\<not> truthy (pending_return s)" and h: "handler s = HandleClick"
  shows "\<exists>s'. handle_click_t2 s ex ey = Some (Inr s') \<and>
           wf_board (board (game s')) \<and>
           (\<forall>p \<in> set F. cell (board (game s')) (fst p) (snd p) = current_player (game s)) \<and>
           (length F < 3 \<longrightarrow> \<not> truthy (pending_return s') \<and> handler s' \<noteq> HandleReturnClick) \<and>
           (3 \<le> length F \<longrightarrow>
              pending_return s' = Some F \<and>
              return_origin s' = Some (ey div CELL_SIZE, ex div CELL_SIZE) \<and>
              handler s' = HandleReturnClick \<and> current_player (game s') = current_player (game s))"
proof -
  let ?p = "current_player (game s)"
  let ?row = "ey div CELL_SIZE" and ?col = "ex div CELL_SIZE"
  let ?s1 = "stop_timer s"
  have g1: "game ?s1 = game s" by (rule game_stop_timer)
  from legal_move_cells[OF wf pl vm mv fl, of 0] obtain b2 where
    t2: "make_move_t2 (game s) ?p ?row ?col = Some (Inr ((game s)\<lparr>board := b2\<rparr>, Some F))"
    and wf2: "wf_board b2" and ins: "inside ?row ?col"
    and cells: "\<forall>p \<in> set F. cell b2 (fst p) (snd p) = ?p"
    by blast
  from ins have rng: "0 \<le> ?row \<and> ?row < BOARD_SIZE \<and> 0 \<le> ?col \<and> ?col < BOARD_SIZE"
    by (simp add: inside_def)
  let ?s2 = "?s1\<lparr>game := (game s)\<lparr>board := b2\<rparr>\<rparr>"
  show ?thesis
  proof (cases "3 \<le> length F")
    case True
    have "handle_click_t2 s ex ey =
        Some (Inr (?s2\<lparr>pending_return := Some F, return_origin := Some (?row, ?col),
                       handler := HandleReturnClick\<rparr>))"
      using np rng vm mv t2 g1 True by (simp add: handle_click_t2_def Let_def)
    with True wf2 cells show ?thesis by simp
  next
    case False
    let ?s3 = "log_move (MoveTxt ?p ?row ?col None) ?s2"
    have hc: "handle_click_t2 s ex ey = end_of_move ?s3"
      using np rng vm mv t2 g1 False by (simp add: handle_click_t2_def Let_def)
    from end_of_move_frame[of ?s3] obtain s' where
      s': "end_of_move ?s3 = Some (Inr s')" "board (game s') = board (game ?s3)"
        "gui.more s' = gui.more ?s3" "handler s' = handler ?s3 \<or> handler s' = Unbound"
      by blast
    have b: "board (game ?s3) = b2" by (simp add: game_log_move)
    have m: "gui.more ?s3 = gui.more s" by (simp add: more_simps)
    have hh: "handler ?s3 = HandleClick" using h by (simp add: handler_simps)
    from more_pending[of s' s] s'(3) m have "pending_return s' = pending_return s" by simp
    with np hc s' b hh wf2 cells False show ?thesis by auto
  qed
qed

lemma handle_return_click_t2_pending:
  fixes s :: "'a gui_t2_scheme"
  assumes pr: "pending_return s = Some F" and ro: "return_origin s = Some origin"
    and wf: "wf_board (board (game s))" and d: "distinct F"
    and ins: "\<forall>p \<in> set F. inside (fst p) (snd p)"
    and cells: "\<forall>p \<in> set F. cell (board (game s)) (fst p) (snd p) = current_player (game s)"
  shows "if (ey div CELL_SIZE, ex div CELL_SIZE) \<in> set F
         then \<exists>s''. handle_return_click_t2 s ex ey = Some (Inr s'') \<and>
                 reverted (board (game s'')) (current_player (game s)) F =
                   [(ey div CELL_SIZE, ex div CELL_SIZE)] \<and>
                 pending_return s'' = None \<and> handler s'' \<noteq> HandleReturnClick
         else handle_return_click_t2 s ex ey = Some (Inr s)"
proof (cases "(ey div CELL_SIZE, ex div CELL_SIZE) \<in> set F")
  case False
  then show ?thesis using pr by (simp add: handle_return_click_t2_def Let_def)
next
  case True
  let ?p = "current_player (game s)"
  let ?row = "ey div CELL_SIZE" and ?col = "ex div CELL_SIZE"
  obtain ox oy where o: "origin = (ox, oy)" by (cases origin)
  from ins True have i: "inside ?row ?col" by fastforce
  let ?b' = "put (board (game s)) (nat ?row) (nat ?col) (opponent ?p)"
  have sc: "set_cell (board (game s)) ?row ?col (opponent ?p) = Inr ?b'"
    by (rule set_cell_inside[OF wf i])
  let ?s1 = "s\<lparr>game := (game s)\<lparr>board := ?b'\<rparr>\<rparr>"
  let ?s3 = "(log_move (MoveTxt (current_player (game ?s1)) ox oy (Some (?row, ?col))) ?s1)
               \<lparr>pending_return := None, return_origin := None, handler := HandleClick\<rparr>"
  have hr: "handle_return_click_t2 s ex ey = end_of_move ?s3"
    using True pr ro o sc by (simp add: handle_return_click_t2_def Let_def)
  from end_of_move_frame[of ?s3] obtain s'' where
    s'': "end_of_move ?s3 = Some (Inr s'')" "board (game s'') = board (game ?s3)"
      "gui.more s'' = gui.more ?s3" "handler s'' = handler ?s3 \<or> handler s'' = Unbound"
    by blast
  have b: "board (game ?s3) = ?b'" by (simp add: log_move_def)
  have hh: "handler ?s3 = HandleClick" by simp
  from more_pending[of s'' ?s3] s''(3) have pn: "pending_return s'' = None" by simp
  have rv: "reverted ?b' ?p F = [(?row, ?col)]"
    by (rule reverted_one[OF wf d ins cells True])
  from True hr s''(1,2,4) b hh pn rv show ?thesis by auto
qed

lemma ai_move_legal:
  assumes wf: "wf_board (board (game_t3 s))"
    and vm: "get_valid_moves (board (game_t3 s)) ''O'' = Some moves"
    and mv: "(r, c) \<in> set moves" and ch: "moves ! (rnd1 mod length moves) = (r, c)"
    and fl: "get_flips (board (game_t3 s)) ''O'' r c = Some F"
  shows "\<exists>s'. ai_move s rnd1 rnd2 = Some (Inr s') \<and>
           reverted (board (game_t3 s')) ''O'' F =
             (if 3 \<le> length F then [F ! (rnd2 mod length F)] else []) \<and>
           (3 \<le> length F \<longrightarrow> F ! (rnd2 mod length F) \<in> set F) \<and>
           pending_return_t3 s' = pending_return_t3 s"
proof -
  have pl: "''O'' = ''X'' \<or> ''O'' = ''O''" by simp
  from legal_move_cells[OF wf pl vm mv fl, of 0] obtain b2 where
    t2: "make_move_t2 (game_t3 s) ''O'' r c = Some (Inr ((game_t3 s)\<lparr>board := b2\<rparr>, Some F))"
    and wf2: "wf_board b2" and d: "distinct F" and ne: "F \<noteq> []"
    and ins: "\<forall>p \<in> set F. inside (fst p) (snd p)"
    and cells: "\<forall>p \<in> set F. cell b2 (fst p) (snd p) = ''O''"
    by blast
  from mv have mne: "moves \<noteq> []" by auto
  have rc1: "random_choice rnd1 moves = Inr (r, c)" using mne ch by (simp add: random_choice_def)
  let ?s1 = "s\<lparr>game_t3 := (game_t3 s)\<lparr>board := b2\<rparr>\<rparr>"
  have ox: "opponent ''O'' = ''X''" by (simp add: opponent_def)
  show ?thesis
  proof (cases "3 \<le> length F")
    case False
    let ?s2 = "log_move_t3 (MoveTxt ''O'' r c None) ?s1"
    have am: "ai_move s rnd1 rnd2 = map_option Inr (end_of_move_t3 ?s2)"
      using vm mne rc1 t2 False by (simp add: ai_move_def Let_def)
    from end_of_move_t3_frame[of ?s2] obtain s' where
      s': "end_of_move_t3 ?s2 = Some s'" "board (game_t3 s') = board (game_t3 ?s2)"
        "pending_return_t3 s' = pending_return_t3 ?s2" by blast
    have "board (game_t3 ?s2) = b2" "pending_return_t3 ?s2 = pending_return_t3 s"
      by (simp_all add: log_move_t3_def)
    with am s' False reverted_none[OF cells] show ?thesis by simp
  next
    case True
    obtain rx ry where rp: "F ! (rnd2 mod length F) = (rx, ry)" by (cases "F ! (rnd2 mod length F)")
    have rpF: "(rx, ry) \<in> set F" using ne rp[symmetric] by simp
    then have ri: "inside rx ry" using ins by fastforce
    have rc2: "random_choice rnd2 F = Inr (rx, ry)" using ne rp by (simp add: random_choice_def)
    let ?b' = "put b2 (nat rx) (nat ry) ''X''"
    have sc: "set_cell b2 rx ry ''X'' = Inr ?b'" by (rule set_cell_inside[OF wf2 ri])
    let ?s2 = "log_move_t3 (MoveTxt ''O'' r c (Some (rx, ry)))
                 (?s1\<lparr>game_t3 := (game_t3 ?s1)\<lparr>board := ?b'\<rparr>\<rparr>)"
    have am: "ai_move s rnd1 rnd2 = map_option Inr (end_of_move_t3 ?s2)"
      using vm mne rc1 t2 True rc2 sc by (simp add: ai_move_def Let_def)
    from end_of_move_t3_frame[of ?s2] obtain s' where
      s': "end_of_move_t3 ?s2 = Some s'" "board (game_t3 s') = board (game_t3 ?s2)"
        "pending_return_t3 s' = pending_return_t3 ?s2" by blast
    have f: "board (game_t3 ?s2) = ?b'" "pending_return_t3 ?s2 = pending_return_t3 s"
      by (simp_all add: log_move_t3_def)
    have rv: "reverted ?b' ''O'' F = [(rx, ry)]"
      using reverted_one[OF wf2 d ins cells rpF] ox by simp
    from am s' f True rv rp rpF show ?thesis by simp
  qed
qed

text \<open>
  Claim C1. For a legal move of \<open>player\<close> at \<open>(r, c)\<close> with flip list \<open>F\<close>:
  \<^item> \<open>make_move\<close> of \<open>test.py\<close> returns; with three flips or more its \<open>return_pos\<close> is the
    member of \<open>F\<close> the draw picks, and that cell is the only cell of \<open>F\<close> holding the
    opponent's colour afterwards; with fewer flips \<open>return_pos\<close> is \<open>None\<close> and no cell of
    \<open>F\<close> holds the opponent's colour;
  \<^item> \<open>ai_move\<close> of \<open>test3.py\<close>, when its first draw picks \<open>(r, c)\<close> for O, does the same with
    its second draw, and leaves \<open>pending_return\<close> as it was;
  \<^item> the click of \<open>test2.py\<close> flips and gives nothing back; with fewer than three flips no
    pending return exists afterwards; with three or more, \<open>pending_return\<close> is \<open>F\<close>, the
    canvas is bound to the return click, a return click outside \<open>F\<close> changes nothing, and
    a return click on a member of \<open>F\<close> leaves that cell as the only one of \<open>F\<close> with the
    opponent's colour, clears \<open>pending_return\<close> and unbinds the return click.
\<close>

theorem return_rule:
  fixes g :: game and s2 :: gui_t2 and s3 :: gui_t3
  assumes wf: "wf_board b" and pl: "player = ''X'' \<or> player = ''O''"
    and vm: "get_valid_moves b player = Some moves" and mv: "(r, c) \<in> set moves"
    and fl: "get_flips b player r c = Some F"
  shows
   "(board g = b \<longrightarrow>
       (\<exists>g' return_pos.
          make_move g player r c rnd = Some (Inr (g', Some F, return_pos)) \<and>
          return_pos = (if 3 \<le> length F then Some (F ! (rnd mod length F)) else None) \<and>
          (\<forall>p. return_pos = Some p \<longrightarrow> p \<in> set F) \<and>
          reverted (board g') player F = (case return_pos of None \<Rightarrow> [] | Some p \<Rightarrow> [p]))) \<and>
    (board (game_t3 s3) = b \<and> player = ''O'' \<and> moves ! (rnd1 mod length moves) = (r, c) \<longrightarrow>
       (\<exists>s'. ai_move s3 rnd1 rnd2 = Some (Inr s') \<and>
          reverted (board (game_t3 s')) ''O'' F =
            (if 3 \<le> length F then [F ! (rnd2 mod length F)] else []) \<and>
          (3 \<le> length F \<longrightarrow> F ! (rnd2 mod length F) \<in> set F) \<and>
          pending_return_t3 s' = pending_return_t3 s3)) \<and>
    (board (game s2) = b \<and> current_player (game s2) = player \<and> \<not> truthy (pending_return s2) \<and>
     handler s2 = HandleClick \<and> ey div CELL_SIZE = r \<and> ex div CELL_SIZE = c \<longrightarrow>
       (\<exists>s'. handle_click_t2 s2 ex ey = Some (Inr s') \<and>
          reverted (board (game s')) player F = [] \<and>
          (length F < 3 \<longrightarrow> \<not> truthy (pending_return s') \<and> handler s' \<noteq> HandleReturnClick) \<and>
          (3 \<le> length F \<longrightarrow>
             pending_return s' = Some F \<and> return_origin s' = Some (r, c) \<and>
             handler s' = HandleReturnClick \<and> current_player (game s') = player \<and>
             (\<forall>ex' ey'.
                if (ey' div CELL_SIZE, ex' div CELL_SIZE) \<in> set F
                then \<exists>s''. handle_return_click_t2 s' ex' ey' = Some (Inr s'') \<and>
                        reverted (board (game s'')) player F =
                          [(ey' div CELL_SIZE, ex' div CELL_SIZE)] \<and>
                        pending_return s'' = None \<and> handler s'' \<noteq> HandleReturnClick
                else handle_return_click_t2 s' ex' ey' = Some (Inr s')))))"
proof (intro conjI impI)
  assume bg: "board g = b"
  note a = wf[folded bg] pl vm[folded bg] mv fl[folded bg]
  from legal_move_cells[OF a, of rnd] obtain b2 where
    mm: "make_move g player r c rnd =
             Some (if 3 \<le> length F
                   then Inr (g\<lparr>board := put b2 (nat (fst (F ! (rnd mod length F))))
                                               (nat (snd (F ! (rnd mod length F)))) (opponent player)\<rparr>,
                             Some F, Some (F ! (rnd mod length F)))
                   else Inr (g\<lparr>board := b2\<rparr>, Some F, None))"
    and wf2: "wf_board b2" and d: "distinct F" and ne: "F \<noteq> []"
    and ins: "\<forall>p \<in> set F. inside (fst p) (snd p)"
    and cells: "\<forall>p \<in> set F. cell b2 (fst p) (snd p) = player"
    by blast
  show "\<exists>g' return_pos.
          make_move g player r c rnd = Some (Inr (g', Some F, return_pos)) \<and>
          return_pos = (if 3 \<le> length F then Some (F ! (rnd mod length F)) else None) \<and>
          (\<forall>p. return_pos = Some p \<longrightarrow> p \<in> set F) \<and>
          reverted (board g') player F = (case return_pos of None \<Rightarrow> [] | Some p \<Rightarrow> [p])"
  proof (cases "3 \<le> length F")
    case False
    with mm reverted_none[OF cells] show ?thesis by simp
  next
    case True
    obtain rx ry where rp: "F ! (rnd mod length F) = (rx, ry)" by (cases "F ! (rnd mod length F)")
    have rpF: "(rx, ry) \<in> set F" using ne rp[symmetric] by simp
    from reverted_one[OF wf2 d ins cells rpF] mm True rp rpF show ?thesis by simp
  qed
next
  assume h: "board (game_t3 s3) = b \<and> player = ''O'' \<and> moves ! (rnd1 mod length moves) = (r, c)"
  then have bg: "board (game_t3 s3) = b" and po: "player = ''O''"
    and ch: "moves ! (rnd1 mod length moves) = (r, c)" by simp_all
  show "\<exists>s'. ai_move s3 rnd1 rnd2 = Some (Inr s') \<and>
          reverted (board (game_t3 s')) ''O'' F =
            (if 3 \<le> length F then [F ! (rnd2 mod length F)] else []) \<and>
          (3 \<le> length F \<longrightarrow> F ! (rnd2 mod length F) \<in> set F) \<and>
          pending_return_t3 s' = pending_return_t3 s3"
    by (rule ai_move_legal[OF wf[folded bg] vm[unfolded po, folded bg] mv ch fl[unfolded po, folded bg]])
next
  assume h: "board (game s2) = b \<and> current_player (game s2) = player \<and> \<not> truthy (pending_return s2) \<and>
     handler s2 = HandleClick \<and> ey div CELL_SIZE = r \<and> ex div CELL_SIZE = c"
  then have bg: "board (game s2) = b" and cp: "current_player (game s2) = player"
    and np: "\<not> truthy (pending_return s2)" and hd: "handler s2 = HandleClick"
    and row: "ey div CELL_SIZE = r" and col: "ex div CELL_SIZE = c" by simp_all
  have wf': "wf_board (board (game s2))" using wf bg by simp
  have pl': "current_player (game s2) = ''X'' \<or> current_player (game s2) = ''O''"
    using pl cp by simp
  have vm': "get_valid_moves (board (game s2)) (current_player (game s2)) = Some moves"
    using vm bg cp by simp
  have mv': "(ey div CELL_SIZE, ex div CELL_SIZE) \<in> set moves" using mv row col by simp
  have fl': "get_flips (board (game s2)) (current_player (game s2)) (ey div CELL_SIZE) (ex div CELL_SIZE) = Some F"
    using fl bg cp row col by simp
  from legal_move_cells[OF wf' pl' vm' mv' fl', of 0] have d: "distinct F"
    and ins: "\<forall>p \<in> set F. inside (fst p) (snd p)" by blast+
  from handle_click_t2_legal[OF wf' pl' vm' mv' fl' np hd] obtain s' where
    s': "handle_click_t2 s2 ex ey = Some (Inr s')" "wf_board (board (game s'))"
      "\<forall>p \<in> set F. cell (board (game s')) (fst p) (snd p) = current_player (game s2)"
      "length F < 3 \<longrightarrow> \<not> truthy (pending_return s') \<and> handler s' \<noteq> HandleReturnClick"
      "3 \<le> length F \<longrightarrow>
              pending_return s' = Some F \<and>
              return_origin s' = Some (ey div CELL_SIZE, ex div CELL_SIZE) \<and>
              handler s' = HandleReturnClick \<and> current_player (game s') = current_player (game s2)"
    by blast
  have rv: "reverted (board (game s')) player F = []"
    using reverted_none[OF s'(3)] cp by simp
  have ret: "3 \<le> length F \<longrightarrow>
             (\<forall>ex' ey'.
                if (ey' div CELL_SIZE, ex' div CELL_SIZE) \<in> set F
                then \<exists>s''. handle_return_click_t2 s' ex' ey' = Some (Inr s'') \<and>
                        reverted (board (game s'')) player F =
                          [(ey' div CELL_SIZE, ex' div CELL_SIZE)] \<and>
                        pending_return s'' = None \<and> handler s'' \<noteq> HandleReturnClick
                else handle_return_click_t2 s' ex' ey' = Some (Inr s'))"
  proof (intro impI allI)
    fix ex' ey' assume t: "3 \<le> length F"
    with s'(5) have pr: "pending_return s' = Some F"
      and ro: "return_origin s' = Some (ey div CELL_SIZE, ex div CELL_SIZE)"
      and cp': "current_player (game s') = current_player (game s2)" by simp_all
    have cells: "\<forall>p \<in> set F. cell (board (game s')) (fst p) (snd p) = current_player (game s')"
      using s'(3) cp' by simp
    from handle_return_click_t2_pending[OF pr ro s'(2) d ins cells, of ey' ex']
    show "if (ey' div CELL_SIZE, ex' div CELL_SIZE) \<in> set F
                then \<exists>s''. handle_return_click_t2 s' ex' ey' = Some (Inr s'') \<and>
                        reverted (board (game s'')) player F =
                          [(ey' div CELL_SIZE, ex' div CELL_SIZE)] \<and>
                        pending_return s'' = None \<and> handler s'' \<noteq> HandleReturnClick
                else handle_return_click_t2 s' ex' ey' = Some (Inr s')"
      unfolding cp' cp .
  qed
  from s'(1,4,5) rv ret cp row col
  show "\<exists>s'. handle_click_t2 s2 ex ey = Some (Inr s') \<and>
          reverted (board (game s')) player F = [] \<and>
          (length F < 3 \<longrightarrow> \<not> truthy (pending_return s') \<and> handler s' \<noteq> HandleReturnClick) \<and>
          (3 \<le> length F \<longrightarrow>
             pending_return s' = Some F \<and> return_origin s' = Some (r, c) \<and>
             handler s' = HandleReturnClick \<and> current_player (game s') = player \<and>
             (\<forall>ex' ey'.
                if (ey' div CELL_SIZE, ex' div CELL_SIZE) \<in> set F
                then \<exists>s''. handle_return_click_t2 s' ex' ey' = Some (Inr s'') \<and>
                        reverted (board (game s'')) player F =
                          [(ey' div CELL_SIZE, ex' div CELL_SIZE)] \<and>
                        pending_return s'' = None \<and> handler s'' \<noteq> HandleReturnClick
                else handle_return_click_t2 s' ex' ey' = Some (Inr s')))"
    by (intro exI[of _ s']) simp
qed

lemma example_three_flips_O_facts:
  "wf_board example_three_flips_board_O"
  "get_valid_moves example_three_flips_board_O ''O'' =
     Some [(1, 3), (1, 4), (1, 5), (3, 5), (4, 2), (5, 3), (5, 4)]"
  "get_flips example_three_flips_board_O ''O'' 1 4 = Some [(2, 4), (3, 4), (2, 3)]"
  by code_simp+

text \<open>
  X at (1,4) with three flips: the draw 5 gives back (2,3); the return click on (2,3) does
  the same in \<open>test2.py\<close>, a return click on (0,0) is ignored. The same position with the
  colours exchanged for the move of the random opponent.
\<close>

theorem return_rule_witness:
  "(\<exists>g'. make_move (example_game example_three_flips_board ''X'') ''X'' 1 4 5 =
            Some (Inr (g', Some [(2, 4), (3, 4), (2, 3)], Some (2, 3))) \<and>
         reverted (board g') ''X'' [(2, 4), (3, 4), (2, 3)] = [(2, 3)]) \<and>
   (\<exists>s'. handle_click_t2 (example_gui_t2 example_three_flips_board ''X'') 250 70 = Some (Inr s') \<and>
         pending_return s' = Some [(2, 4), (3, 4), (2, 3)] \<and>
         reverted (board (game s')) ''X'' [(2, 4), (3, 4), (2, 3)] = [] \<and>
         (\<exists>s''. handle_return_click_t2 s' 190 130 = Some (Inr s'') \<and>
            reverted (board (game s'')) ''X'' [(2, 4), (3, 4), (2, 3)] = [(2, 3)] \<and>
            pending_return s'' = None) \<and>
         handle_return_click_t2 s' 10 10 = Some (Inr s')) \<and>
   (\<exists>s'. ai_move (example_gui_t3 example_three_flips_board_O) 1 5 = Some (Inr s') \<and>
         reverted (board (game_t3 s')) ''O'' [(2, 4), (3, 4), (2, 3)] = [(2, 3)])"
proof -
  let ?F = "[(2, 4), (3, 4), (2, 3)] :: coord list"
  let ?M = "[(1, 3), (1, 4), (1, 5), (3, 5), (4, 2), (5, 3), (5, 4)] :: coord list"
  note f = example_three_flips_facts(1-3)
  note fo = example_three_flips_O_facts
  have px: "''X'' = ''X'' \<or> ''X'' = ''O''" and po: "''O'' = ''X'' \<or> ''O'' = ''O''" by simp_all
  have mv: "(1, 4) \<in> set ?M" by simp
  have d: "(70::int) div CELL_SIZE = 1" "(250::int) div CELL_SIZE = 4"
    "(130::int) div CELL_SIZE = 2" "(190::int) div CELL_SIZE = 3"
    "(10::int) div CELL_SIZE = 0"
    by (simp_all add: CELL_SIZE_def)
  note rx = return_rule[OF f(1) px f(2) mv f(3),
      where g = "example_game example_three_flips_board ''X''" and rnd = 5
        and ?s2.0 = "example_gui_t2 example_three_flips_board ''X''" and ex = 250 and ey = 70
        and ?s3.0 = "example_gui_t3 example_three_flips_board" and ?rnd1.0 = 1 and ?rnd2.0 = 5]
  from rx have A: "\<exists>g'. make_move (example_game example_three_flips_board ''X'') ''X'' 1 4 5 =
            Some (Inr (g', Some ?F, Some (2, 3))) \<and> reverted (board g') ''X'' ?F = [(2, 3)]"
    by (auto simp: example_game_simps)
  from rx obtain s' where
    s': "handle_click_t2 (example_gui_t2 example_three_flips_board ''X'') 250 70 = Some (Inr s')"
      "reverted (board (game s')) ''X'' ?F = []" "pending_return s' = Some ?F"
      "\<forall>ex' ey'.
                if (ey' div CELL_SIZE, ex' div CELL_SIZE) \<in> set ?F
                then \<exists>s''. handle_return_click_t2 s' ex' ey' = Some (Inr s'') \<and>
                        reverted (board (game s'')) ''X'' ?F =
                          [(ey' div CELL_SIZE, ex' div CELL_SIZE)] \<and>
                        pending_return s'' = None \<and> handler s'' \<noteq> HandleReturnClick
                else handle_return_click_t2 s' ex' ey' = Some (Inr s')"
    by (auto simp: example_gui_t2_def truthy_def d)
  from s'(4)[rule_format, of 130 190] have r1:
    "\<exists>s''. handle_return_click_t2 s' 190 130 = Some (Inr s'') \<and>
            reverted (board (game s'')) ''X'' ?F = [(2, 3)] \<and> pending_return s'' = None"
    by (auto simp: d)
  from s'(4)[rule_format, of 10 10] have r2: "handle_return_click_t2 s' 10 10 = Some (Inr s')"
    by (simp add: d)
  from return_rule[OF fo(1) po fo(2) mv fo(3),
      where ?s3.0 = "example_gui_t3 example_three_flips_board_O" and ?rnd1.0 = 1 and ?rnd2.0 = 5
        and g = "example_game example_three_flips_board_O ''O''" and rnd = 0
        and ?s2.0 = "example_gui_t2 example_three_flips_board_O ''O''" and ex = 250 and ey = 70]
  have C: "\<exists>s'. ai_move (example_gui_t3 example_three_flips_board_O) 1 5 = Some (Inr s') \<and>
         reverted (board (game_t3 s')) ''O'' ?F = [(2, 3)]"
    by (auto simp: example_gui_t3_def)
  from A s'(1-3) r1 r2 C show ?thesis by blast
qed

end
